theory Spec2Isabelle
  imports Main "HOL-Library.Word"
begin

section \<open>The model\<close>

subsection \<open>JavaScript values\<close>

text \<open>
  The values the service code handles come out of \<open>JSON.parse\<close> or out of a JSON column
  of the relational store: null, booleans, numbers, strings, arrays and objects;
  \<open>JUndefined\<close> is what reading an absent property gives. \<open>JNum n\<close> is the number \<open>n\<close>, for
  the integers that a JavaScript number holds exactly: every integer up to \<open>2 ^ 53\<close> in
  absolute value and, beyond, the integers that are doubles. Labels, positions and counts
  are such numbers; numbers with a fractional part, \<open>NaN\<close> and the infinities are left out.
  An object is the list of its own properties, read by \<open>map_of\<close>. Arrays and objects are
  references in JavaScript: every array and object met here is a node of a freshly parsed
  tree, so two of them are never the same reference.
\<close>

datatype jsval =
    JUndefined
  | JNull
  | JBool bool
  | JNum int
  | JStr string
  | JArr "jsval list"
  | JObj "(string \<times> jsval) list"

datatype js_error = TypeError | PlainError | BSONError

text \<open>Sequencing of computations that may throw: the first error wins.\<close>

definition bindE :: "'e + 'a \<Rightarrow> ('a \<Rightarrow> 'e + 'b) \<Rightarrow> 'e + 'b" where
  "bindE x f = (case x of Inl e \<Rightarrow> Inl e | Inr v \<Rightarrow> f v)"

fun sequenceE :: "('e + 'a) list \<Rightarrow> 'e + 'a list" where
  "sequenceE [] = Inr []"
| "sequenceE (x # xs) = bindE x (\<lambda>y. bindE (sequenceE xs) (\<lambda>ys. Inr (y # ys)))"


text \<open>\<open>truthy v\<close> is \<open>!!v\<close>, and \<open>orElse a b\<close> is \<open>a || b\<close>.\<close>

fun truthy :: "jsval \<Rightarrow> bool" where
  "truthy JUndefined = False"
| "truthy JNull = False"
| "truthy (JBool b) = b"
| "truthy (JNum n) = (n \<noteq> 0)"
| "truthy (JStr s) = (s \<noteq> [])"
| "truthy (JArr xs) = True"
| "truthy (JObj kvs) = True"

definition orElse :: "jsval \<Rightarrow> jsval \<Rightarrow> jsval" where
  "orElse a b = (if truthy a then a else b)"

text \<open>
  \<open>getProp v k\<close> is the property read \<open>v.k\<close> for the data keys the code reads
  (\<open>question_label\<close>, \<open>text\<close>, \<open>choices\<close>, \<open>questions\<close> and the like, none of which a
  prototype defines): it throws on null and undefined, finds an object's own property,
  and is undefined on every other value.
\<close>

fun getProp :: "jsval \<Rightarrow> string \<Rightarrow> js_error + jsval" where
  "getProp JUndefined k = Inl TypeError"
| "getProp JNull k = Inl TypeError"
| "getProp (JObj kvs) k = Inr (case map_of kvs k of None \<Rightarrow> JUndefined | Some v \<Rightarrow> v)"
| "getProp v k = Inr JUndefined"

text \<open>
  \<open>Number::toString\<close> on an integer. Up to \<open>2 ^ 53\<close> the digits are those of the integer.
  Beyond, they are the fewest digits that read back as the same double, of the decimal
  nearest to it when several have that many digits, followed by zeros up to 21 digits
  and in exponent form from 22 digits on. \<open>roundDouble m\<close> is the double nearest to the
  integer \<open>m\<close>, which is not negative, ties going to the even significand, and
  \<open>decimalCandidates m\<close> lists, for 1, 2, ... digits, the two decimals with that many
  digits around \<open>m\<close>, the nearer one first.
\<close>

function showDigits :: "int \<Rightarrow> string" where
  "showDigits n =
     (if n < 10 then [''0123456789'' ! nat n]
      else showDigits (n div 10) @ [''0123456789'' ! nat (n mod 10)])"
  by pat_completeness auto
termination
  by (relation "measure nat") auto

declare showDigits.simps [simp del]

function bitLength :: "int \<Rightarrow> nat" where
  "bitLength n = (if n \<le> 0 then 0 else Suc (bitLength (n div 2)))"
  by pat_completeness auto
termination
  by (relation "measure nat") auto

declare bitLength.simps [simp del]

definition roundDouble :: "int \<Rightarrow> int" where
  "roundDouble m =
     (if bitLength m \<le> 53 then m
      else let sh = bitLength m - 53; q = m div 2 ^ sh; r = m mod 2 ^ sh; h = 2 ^ (sh - 1)
           in (if r > h \<or> (r = h \<and> odd q) then q + 1 else q) * 2 ^ sh)"

definition decimalCandidates :: "int \<Rightarrow> int list" where
  "decimalCandidates m =
     (let d = length (showDigits m) in
      concat (map (\<lambda>k. let p = 10 ^ (d - k); lo = (m div p) * p; hi = lo + p
                       in if m - lo < hi - m \<or> (m - lo = hi - m \<and> even (m div p))
                          then [lo, hi] else [hi, lo])
                [1..<d + 1]))"

definition shortestDecimal :: "int \<Rightarrow> int" where
  "shortestDecimal m =
     (case List.find (\<lambda>c. roundDouble c = m) (decimalCandidates m) of
        Some c \<Rightarrow> c
      | None \<Rightarrow> m)"

definition numberToString :: "int \<Rightarrow> string" where
  "numberToString m =
     (if m < 2 ^ 53 then showDigits m
      else let s = showDigits (shortestDecimal m) in
           if length s \<le> 21 then s
           else let digits = rev (dropWhile (\<lambda>c. c = CHR ''0'') (rev s));
                    exponent = showDigits (int (length s) - 1)
                in if length digits = 1 then digits @ ''e+'' @ exponent
                   else hd digits # CHR ''.'' # tl digits @ ''e+'' @ exponent)"

definition showInt :: "int \<Rightarrow> string" where
  "showInt i = (if i < 0 then CHR ''-'' # numberToString (- i) else numberToString i)"

fun joinWith :: "string \<Rightarrow> string list \<Rightarrow> string" where
  "joinWith sep [] = []"
| "joinWith sep [x] = x"
| "joinWith sep (x # y # ys) = x @ sep @ joinWith sep (y # ys)"

text \<open>
  \<open>js_String v\<close> is \<open>String(v)\<close>. An array is joined with commas, null and undefined
  elements giving the empty string. A parsed object prints as \<open>[object Object]\<close>, unless it
  has an own property \<open>toString\<close>: that property is data, not a function, and the conversion
  throws.
\<close>

fun js_String :: "jsval \<Rightarrow> js_error + string" where
  "js_String JUndefined = Inr ''undefined''"
| "js_String JNull = Inr ''null''"
| "js_String (JBool b) = Inr (if b then ''true'' else ''false'')"
| "js_String (JNum n) = Inr (showInt n)"
| "js_String (JStr s) = Inr s"
| "js_String (JArr xs) =
     bindE (sequenceE (map (\<lambda>x. if x = JNull \<or> x = JUndefined then Inr [] else js_String x) xs))
       (\<lambda>parts. Inr (joinWith '','' parts))"
| "js_String (JObj kvs) =
     (if ''toString'' \<in> fst ` set kvs then Inl TypeError else Inr ''[object Object]'')"

text \<open>
  \<open>sameValueZero\<close> is the comparison a \<open>Set\<close> uses for its members and \<open>strictEquals\<close> is
  \<open>===\<close>; on the values of this model they agree. Primitives compare by value, without
  any coercion; two arrays or objects are never the same reference.
\<close>

fun sameValueZero :: "jsval \<Rightarrow> jsval \<Rightarrow> bool" where
  "sameValueZero (JArr xs) b = False"
| "sameValueZero (JObj kvs) b = False"
| "sameValueZero a b = (a = b)"


text \<open>
  The class \<open>\s\<close> of a regular expression and the characters \<open>trim\<close> strips, among the
  code units below 256: tab, line feed, vertical tab, form feed, carriage return, space
  and no-break space.
\<close>

definition isSpace :: "char \<Rightarrow> bool" where
  "isSpace c = (c \<in> set [CHR 0x09, CHR 0x0A, CHR 0x0B, CHR 0x0C, CHR 0x0D, CHR 0x20, CHR 0xA0])"

text \<open>\<open>String.prototype.trim\<close>, and \<open>toLowerCase\<close> on the letters of ASCII.\<close>

definition trim :: "string \<Rightarrow> string" where
  "trim s = rev (dropWhile isSpace (rev (dropWhile isSpace s)))"

definition toLowerCase :: "string \<Rightarrow> string" where
  "toLowerCase s =
     map (\<lambda>c. if c \<in> set ''ABCDEFGHIJKLMNOPQRSTUVWXYZ'' then char_of (of_char c + (32 :: nat)) else c) s"

subsection \<open>Escape-sequence repairer\<close>

text \<open>
  \<open>fixInvalidEscapeSequences\<close> (questionExtractionService). A JavaScript string is modelled
  as the list of its code units. The source keeps an index \<open>i\<close> into \<open>jsonStr\<close> and
  appends to \<open>result\<close>; \<open>fixOuter\<close> is the outer \<open>while\<close> loop and \<open>fixInner\<close> the inner
  one, which returns the index and the result it leaves behind. \<open>CHR 0x22\<close> is the double
  quote and \<open>CHR 0x5C\<close> the backslash. The counter \<open>fixCount\<close> only feeds a log line.
\<close>

definition validEscapes :: string where
  "validEscapes = [CHR 0x22, CHR 0x5C, CHR ''/'', CHR ''b'', CHR ''f'', CHR ''n'', CHR ''r'', CHR ''t'', CHR ''u'']"

function fixInner :: "string \<Rightarrow> nat \<Rightarrow> string \<Rightarrow> nat \<times> string" where
  "fixInner jsonStr i result =
     (if i < length jsonStr then
        (let char = jsonStr ! i in
         if char = CHR 0x5C \<and> i + 1 < length jsonStr then
           (let nextChar = jsonStr ! (i + 1) in
            if nextChar \<in> set validEscapes
            then fixInner jsonStr (i + 2) (result @ [char, nextChar])
            else fixInner jsonStr (i + 2) (result @ [CHR 0x5C, CHR 0x5C, nextChar]))
         else if char = CHR 0x22 then (i + 1, result @ [CHR 0x22])
         else fixInner jsonStr (i + 1) (result @ [char]))
      else (i, result))"
  by pat_completeness auto
termination
  by (relation "measure (\<lambda>(s, i, r). length s - i)") auto

declare fixInner.simps [simp del]

lemma fixInner_advances: "i \<le> fst (fixInner s i r)"
proof (induction s i r rule: fixInner.induct)
  case (1 jsonStr i result)
  show ?case
  proof (cases "i < length jsonStr")
    case False
    then show ?thesis by (simp add: fixInner.simps)
  next
    case inb: True
    show ?thesis
    proof (cases "jsonStr ! i = CHR 0x5C \<and> i + 1 < length jsonStr")
      case esc: True
      show ?thesis
      proof (cases "jsonStr ! (i + 1) \<in> set validEscapes")
        case True
        with inb esc "1.IH"(1) have "i + 2 \<le> fst (fixInner jsonStr i result)"
          by (subst fixInner.simps) (simp add: Let_def)
        then show ?thesis by simp
      next
        case False
        with inb esc "1.IH"(2) have "i + 2 \<le> fst (fixInner jsonStr i result)"
          by (subst fixInner.simps) (simp add: Let_def)
        then show ?thesis by simp
      qed
    next
      case nesc: False
      show ?thesis
      proof (cases "jsonStr ! i = CHR 0x22")
        case True
        with inb nesc show ?thesis by (subst fixInner.simps) (auto simp: Let_def)
      next
        case False
        with inb nesc "1.IH"(3) have "i + 1 \<le> fst (fixInner jsonStr i result)"
          by (subst fixInner.simps) (auto simp: Let_def)
        then show ?thesis by simp
      qed
    qed
  qed
qed

function fixOuter :: "string \<Rightarrow> nat \<Rightarrow> string \<Rightarrow> string" where
  "fixOuter jsonStr i result =
     (if i < length jsonStr then
        (if jsonStr ! i = CHR 0x22 then
           (case fixInner jsonStr (i + 1) (result @ [CHR 0x22]) of
              (i', result') \<Rightarrow> fixOuter jsonStr i' result')
         else fixOuter jsonStr (i + 1) (result @ [jsonStr ! i]))
      else result)"
  by pat_completeness auto
termination
proof (relation "measure (\<lambda>(s, i, r). length s - i)", goal_cases)
  case 1
  show ?case by simp
next
  case (2 jsonStr i result x y)
  have "i + 1 \<le> fst (fixInner jsonStr (i + 1) (result @ [CHR 0x22]))"
    by (rule fixInner_advances)
  with 2 show ?case by (auto simp: prod_eq_iff case_prod_beta)
next
  case 3
  then show ?case by simp
qed

declare fixOuter.simps [simp del]

definition fixInvalidEscapeSequences :: "string \<Rightarrow> string" where
  "fixInvalidEscapeSequences jsonStr = fixOuter jsonStr 0 []"



text \<open>
  The scanner as section 4.1 of the specification words it, by recursion on the text
  that is still to be read: \<open>spec_copyOutside\<close> is the state outside string literals,
  \<open>spec_repairInside\<close> the state inside one, and \<open>spec_validEscape\<close> the set
  \<open>{", \, /, b, f, n, r, t, u}\<close> of the characters that may follow a backslash, written
  out from the specification and not from the constant of the code.
\<close>

definition spec_validEscape :: "char \<Rightarrow> bool" where
  "spec_validEscape d =
     (d = CHR 0x22 \<or> d = CHR 0x5C \<or> d = CHR ''/'' \<or> d = CHR ''b'' \<or> d = CHR ''f''
      \<or> d = CHR ''n'' \<or> d = CHR ''r'' \<or> d = CHR ''t'' \<or> d = CHR ''u'')"

fun spec_copyOutside :: "string \<Rightarrow> string" and spec_repairInside :: "string \<Rightarrow> string" where
  "spec_copyOutside [] = []"
| "spec_copyOutside (c # cs) =
     (if c = CHR 0x22 then c # spec_repairInside cs else c # spec_copyOutside cs)"
| "spec_repairInside [] = []"
| "spec_repairInside [c] = [c]"
| "spec_repairInside (c # d # cs) =
     (if c = CHR 0x5C then
        (if spec_validEscape d then c # d # spec_repairInside cs
         else CHR 0x5C # CHR 0x5C # d # spec_repairInside cs)
      else if c = CHR 0x22 then c # spec_copyOutside (d # cs)
      else c # spec_repairInside (d # cs))"

subsection \<open>Identifier generation\<close>

text \<open>
  \<open>generateMongoId\<close> (utils/mongoId.js). The module keeps one mutable \<open>counter\<close>; the
  model takes it as an argument and returns the new value beside the identifier. The
  clock reading \<open>Date.now()\<close> (milliseconds) and the five values
  \<open>Math.floor(Math.random() * 256)\<close>, each a byte, are inputs. \<open>toString16\<close> is
  \<open>Number.prototype.toString(16)\<close> on a non-negative integer and \<open>padStart\<close> is
  \<open>String.prototype.padStart\<close> with a one-character filler.
\<close>

definition hexDigit :: "nat \<Rightarrow> char" where
  "hexDigit d = ''0123456789abcdef'' ! d"

fun toString16 :: "nat \<Rightarrow> string" where
  "toString16 n = (if n < 16 then [hexDigit n] else toString16 (n div 16) @ [hexDigit (n mod 16)])"

declare toString16.simps [simp del]

definition padStart :: "nat \<Rightarrow> char \<Rightarrow> string \<Rightarrow> string" where
  "padStart targetLength c s = replicate (targetLength - length s) c @ s"

type_synonym random_bytes = "8 word \<times> 8 word \<times> 8 word \<times> 8 word \<times> 8 word"

definition randomHex :: "random_bytes \<Rightarrow> string" where
  "randomHex rs = (case rs of (r0, r1, r2, r3, r4) \<Rightarrow>
     concat (map (\<lambda>r. padStart 2 CHR ''0'' (toString16 (unat r))) [r0, r1, r2, r3, r4]))"

definition generateMongoId :: "nat \<Rightarrow> random_bytes \<Rightarrow> nat \<Rightarrow> string \<times> nat" where
  "generateMongoId now rs counter =
     (let timestamp = padStart 8 CHR ''0'' (toString16 (now div 1000));
          random = randomHex rs;
          counter' = (counter + 1) mod 0xffffff;
          count = padStart 6 CHR ''0'' (toString16 counter')
      in (timestamp @ random @ count, counter'))"

text \<open>Reading a field back: the number a string of hexadecimal digits denotes.\<close>

definition hexDigitValue :: "char \<Rightarrow> nat" where
  "hexDigitValue c = (if c \<in> set ''0123456789'' then of_char c - 48 else of_char c - 87)"

definition hexValue :: "string \<Rightarrow> nat" where
  "hexValue s = foldl (\<lambda>v c. 16 * v + hexDigitValue c) 0 s"

definition isHexDigit :: "char \<Rightarrow> bool" where
  "isHexDigit c = (c \<in> set ''0123456789abcdef'')"

subsection \<open>Question/solution matcher\<close>





text \<open>A solution field is copied when it is truthy.\<close>

definition copiedField :: "jsval \<Rightarrow> string \<Rightarrow> js_error + jsval option" where
  "copiedField matchingSolution k =
     bindE (getProp matchingSolution k) (\<lambda>v. Inr (if truthy v then Some v else None))"



record extraction_set =
  book_id :: jsval
  chapter_id :: jsval
  payload :: jsval


datatype prepare_error =
    QuestionSetNotFound
  | SolutionSetNotFound
  | NotSameBook
  | NotSameChapter
  | Threw js_error




subsection \<open>Resilient JSON-block extractor\<close>

text \<open>
  \<open>parseQuestionsFromContent\<close> (questionExtractionService). The repository holds two
  copies of the method: the one beside \<open>fixInvalidEscapeSequences\<close> retries a block that
  fails to parse, the other one does not; apart from that they agree line by line.

  \<open>JSON.parse\<close> and the regular-expression engine are built into the language; the model
  takes them as arguments. \<open>jsonParse s\<close> is \<open>None\<close> where \<open>JSON.parse(s)\<close> throws. The
  string methods the loop uses are written out.
\<close>

text \<open>
  \<open>findFirst pat s\<close> is the offset of the first occurrence of \<open>pat\<close> in \<open>s\<close>, and
  \<open>indexOf s pat from\<close> is \<open>s.indexOf(pat, from)\<close>, with \<open>None\<close> for \<open>-1\<close>.
\<close>

fun findFirst :: "string \<Rightarrow> string \<Rightarrow> nat option" where
  "findFirst pat [] = (if pat = [] then Some 0 else None)"
| "findFirst pat (c # cs) =
     (if take (length pat) (c # cs) = pat then Some 0
      else map_option Suc (findFirst pat cs))"

definition indexOf :: "string \<Rightarrow> string \<Rightarrow> nat \<Rightarrow> nat option" where
  "indexOf s pat from = map_option (\<lambda>k. min from (length s) + k) (findFirst pat (drop from s))"

definition substring :: "string \<Rightarrow> nat \<Rightarrow> nat \<Rightarrow> string" where
  "substring s start end = take (end - start) (drop start s)"

definition questionsKey :: string where
  "questionsKey = CHR 0x22 # ''questions'' @ [CHR 0x22]"

text \<open>
  The pattern \<open>/\{\s*"questions"\s*:\s*\[/\<close>. \<open>expectChar\<close> and \<open>expectString\<close> consume a
  literal and return the rest of the text; \<open>regexRest s\<close> is what is left of \<open>s\<close> after a
  match at its start, and \<open>regexMatchHere s\<close> the length of that match. Every \<open>\s*\<close> is
  followed by a character that is no space, so the greedy match is the only one.
  \<open>regexExec s\<close> is \<open>s.match(...)\<close>: the text \<open>match[0]\<close> of the leftmost match.
\<close>

definition expectChar :: "char \<Rightarrow> string \<Rightarrow> string option" where
  "expectChar c s = (case s of [] \<Rightarrow> None | x # r \<Rightarrow> if x = c then Some r else None)"

definition expectString :: "string \<Rightarrow> string \<Rightarrow> string option" where
  "expectString p s = (if take (length p) s = p then Some (drop (length p) s) else None)"

definition regexRest :: "string \<Rightarrow> string option" where
  "regexRest s =
     Option.bind (expectChar CHR ''{'' s) (\<lambda>r1.
     Option.bind (expectString questionsKey (dropWhile isSpace r1)) (\<lambda>r2.
     Option.bind (expectChar CHR '':'' (dropWhile isSpace r2)) (\<lambda>r3.
       expectChar CHR ''['' (dropWhile isSpace r3))))"

definition regexMatchHere :: "string \<Rightarrow> nat option" where
  "regexMatchHere s = map_option (\<lambda>r. length s - length r) (regexRest s)"

fun regexExec :: "string \<Rightarrow> string option" where
  "regexExec [] = None"
| "regexExec (c # cs) =
     (case regexMatchHere (c # cs) of
        Some n \<Rightarrow> Some (take n (c # cs))
      | None \<Rightarrow> regexExec cs)"

fun minimum :: "nat list \<Rightarrow> nat" where
  "minimum [] = 0"
| "minimum [x] = x"
| "minimum (x # y # ys) = min x (minimum (y # ys))"

text \<open>
  The three searches for the next candidate and the choice of the earliest.
  \<open>pattern3\<close> adds \<open>remainingContent.indexOf(regexMatch[0])\<close> to \<open>searchStart\<close>; were that
  \<open>-1\<close>, the sum would be \<open>searchStart - 1\<close>, which is filtered out only when it is
  \<open>-1\<close>.
\<close>

definition findCandidate :: "string \<Rightarrow> nat \<Rightarrow> nat option" where
  "findCandidate rawContent searchStart =
     (let pattern1 = indexOf rawContent (CHR ''{'' # questionsKey) searchStart;
          pattern2 = indexOf rawContent (''{ '' @ questionsKey) searchStart;
          remainingContent = drop searchStart rawContent;
          pattern3 =
            (case regexExec remainingContent of
               None \<Rightarrow> None
             | Some m \<Rightarrow>
                 (case indexOf remainingContent m 0 of
                    Some k \<Rightarrow> Some (searchStart + k)
                  | None \<Rightarrow> if searchStart = 0 then None else Some (searchStart - 1)));
          validPatterns = List.map_filter id [pattern1, pattern2, pattern3]
      in if validPatterns \<noteq> [] then Some (minimum validPatterns) else None)"

text \<open>
  The \<open>for\<close> loop that looks for the matching closing brace. The first argument is the
  text from index \<open>i\<close> on; the result is \<open>jsonEnd\<close>, \<open>None\<close> for \<open>-1\<close>.
\<close>

fun scanBraces :: "string \<Rightarrow> nat \<Rightarrow> int \<Rightarrow> bool \<Rightarrow> bool \<Rightarrow> nat option" where
  "scanBraces [] i braceCount inString escapeNext = None"
| "scanBraces (char # rest) i braceCount inString escapeNext =
     (if escapeNext then scanBraces rest (i + 1) braceCount inString False
      else if char = CHR 0x5C then scanBraces rest (i + 1) braceCount inString True
      else if char = CHR 0x22 then scanBraces rest (i + 1) braceCount (\<not> inString) False
      else if \<not> inString then
        (let braceCount1 = (if char = CHR ''{'' then braceCount + 1 else braceCount);
             braceCount2 = (if char = CHR ''}'' then braceCount1 - 1 else braceCount1)
         in if braceCount2 = 0 then Some (i + 1)
            else scanBraces rest (i + 1) braceCount2 inString False)
      else scanBraces rest (i + 1) braceCount inString False)"

definition findClosing :: "string \<Rightarrow> nat \<Rightarrow> nat option" where
  "findClosing rawContent jsonStart = scanBraces (drop jsonStart rawContent) jsonStart 0 False False"

text \<open>
  One attempt on a block: \<open>JSON.parse\<close>, then the test
  \<open>parsed.questions && Array.isArray(parsed.questions)\<close>. \<open>None\<close> means that the \<open>try\<close>
  block threw; a parsed value without a questions array contributes nothing.
\<close>

definition attempt :: "(string \<Rightarrow> jsval option) \<Rightarrow> string \<Rightarrow> jsval list option" where
  "attempt jsonParse jsonStr =
     (case jsonParse jsonStr of
        None \<Rightarrow> None
      | Some parsed \<Rightarrow>
          (case getProp parsed ''questions'' of
             Inl e \<Rightarrow> None
           | Inr qs \<Rightarrow> Some (case qs of JArr xs \<Rightarrow> xs | _ \<Rightarrow> [])))"

text \<open>
  What a located block adds to \<open>allQuestions\<close>. With the repairer: the \<open>catch\<close> of the first
  attempt runs the second attempt on the repaired text, and the \<open>catch\<close> of that one only
  logs. Without it: the \<open>catch\<close> of the only attempt logs.
\<close>

definition blockQuestions :: "(string \<Rightarrow> jsval option) \<Rightarrow> string \<Rightarrow> jsval list" where
  "blockQuestions jsonParse jsonStr =
     (case attempt jsonParse jsonStr of
        Some qs \<Rightarrow> qs
      | None \<Rightarrow>
          (case attempt jsonParse (fixInvalidEscapeSequences jsonStr) of
             Some qs \<Rightarrow> qs
           | None \<Rightarrow> []))"

definition blockQuestionsNoRetry :: "(string \<Rightarrow> jsval option) \<Rightarrow> string \<Rightarrow> jsval list" where
  "blockQuestionsNoRetry jsonParse jsonStr =
     (case attempt jsonParse jsonStr of
        Some qs \<Rightarrow> qs
      | None \<Rightarrow> [])"

text \<open>
  One pass of the \<open>while (true)\<close> loop: \<open>None\<close> is the \<open>break\<close>, otherwise the new
  \<open>searchStart\<close> and the new \<open>allQuestions\<close>. \<open>handleBlock\<close> is the body of the branch
  \<open>jsonEnd !== -1\<close> up to the assignment to \<open>searchStart\<close>.
\<close>

definition scanStep ::
  "(string \<Rightarrow> jsval list) \<Rightarrow> string \<Rightarrow> nat \<Rightarrow> jsval list \<Rightarrow> (nat \<times> jsval list) option" where
  "scanStep handleBlock rawContent searchStart allQuestions =
     (case findCandidate rawContent searchStart of
        None \<Rightarrow> None
      | Some jsonStart \<Rightarrow>
          (case findClosing rawContent jsonStart of
             Some jsonEnd \<Rightarrow>
               Some (jsonEnd, allQuestions @ handleBlock (substring rawContent jsonStart jsonEnd))
           | None \<Rightarrow> Some (jsonStart + 1, allQuestions)))"

text \<open>
  Every pass that does not leave the loop moves \<open>searchStart\<close> forward and keeps it
  within the text; the loop is defined with that as its termination argument.
\<close>

lemma findFirst_bound: "findFirst pat s = Some k \<Longrightarrow> k + length pat \<le> length s"
proof (induction s arbitrary: k)
  case Nil
  then show ?case by (simp split: if_splits)
next
  case (Cons c cs)
  show ?case
  proof (cases "take (length pat) (c # cs) = pat")
    case True
    then have "length (take (length pat) (c # cs)) = length pat" by simp
    then have "length pat \<le> length (c # cs)" by simp
    with True Cons.prems show ?thesis by simp
  next
    case False
    with Cons.prems obtain j where "findFirst pat cs = Some j" and "k = Suc j" by auto
    with Cons.IH show ?thesis by simp
  qed
qed

lemma indexOf_bounds:
  assumes "indexOf s pat from = Some i" and "pat \<noteq> []"
  shows "from \<le> i \<and> i + length pat \<le> length s"
proof -
  from assms(1) obtain k where k: "findFirst pat (drop from s) = Some k"
    and i: "i = min from (length s) + k"
    by (auto simp: indexOf_def)
  from findFirst_bound [OF k] have b: "k + length pat \<le> length s - from" by simp
  with assms(2) have "from < length s" by (cases "from < length s") auto
  with i b show ?thesis by simp
qed

lemma expectChar_length: "expectChar c s = Some r \<Longrightarrow> length r < length s"
  by (cases s) (auto simp: expectChar_def split: if_splits)

lemma expectString_length: "expectString p s = Some r \<Longrightarrow> length r \<le> length s"
  by (auto simp: expectString_def split: if_splits)

lemma regexRest_length:
  assumes "regexRest s = Some r"
  shows "length r < length s"
proof -
  from assms obtain r1 r2 r3 where
    1: "expectChar CHR ''{'' s = Some r1" and
    2: "expectString questionsKey (dropWhile isSpace r1) = Some r2" and
    3: "expectChar CHR '':'' (dropWhile isSpace r2) = Some r3" and
    4: "expectChar CHR ''['' (dropWhile isSpace r3) = Some r"
    by (auto simp: regexRest_def Option.bind_eq_Some_conv)
  have "length r < length (dropWhile isSpace r3)" using 4 by (rule expectChar_length)
  also have "\<dots> \<le> length r3" by (rule length_dropWhile_le)
  also have "\<dots> < length (dropWhile isSpace r2)" using 3 by (rule expectChar_length)
  also have "\<dots> \<le> length r2" by (rule length_dropWhile_le)
  also have "\<dots> \<le> length (dropWhile isSpace r1)" using 2 by (rule expectString_length)
  also have "\<dots> \<le> length r1" by (rule length_dropWhile_le)
  also have "\<dots> < length s" using 1 by (rule expectChar_length)
  finally show ?thesis .
qed

lemma regexMatchHere_bounds: "regexMatchHere s = Some n \<Longrightarrow> 0 < n \<and> n \<le> length s"
  using regexRest_length by (auto simp: regexMatchHere_def)

lemma findFirst_Cons_Some: "findFirst pat cs = Some k \<Longrightarrow> \<exists>j. findFirst pat (c # cs) = Some j"
  by simp

lemma regexExec_occurs: "regexExec s = Some m \<Longrightarrow> m \<noteq> [] \<and> (\<exists>k. findFirst m s = Some k)"
proof (induction s)
  case Nil
  then show ?case by simp
next
  case (Cons c cs)
  show ?case
  proof (cases "regexMatchHere (c # cs)")
    case None
    with Cons.prems have "regexExec cs = Some m" by simp
    from Cons.IH [OF this] show ?thesis using findFirst_Cons_Some by blast
  next
    case (Some n)
    with Cons.prems have m: "m = take n (c # cs)" by simp
    from regexMatchHere_bounds [OF Some] have n: "0 < n" "n \<le> length (c # cs)" by simp_all
    from m n have "length m = n" by simp
    with m n show ?thesis by auto
  qed
qed

lemma minimum_bounds:
  "xs \<noteq> [] \<Longrightarrow> \<forall>x \<in> set xs. a \<le> x \<and> x < b \<Longrightarrow> a \<le> minimum xs \<and> minimum xs < b"
  by (induction xs rule: minimum.induct) (auto simp: min_def)

lemma set_map_filter_id: "set (List.map_filter id xs) = {p. Some p \<in> set xs}"
  by (induction xs) (auto simp: List.map_filter_def)

lemma findCandidate_bounds:
  assumes "findCandidate rawContent searchStart = Some jsonStart"
  shows "searchStart \<le> jsonStart \<and> jsonStart < length rawContent"
proof -
  let ?p1 = "indexOf rawContent (CHR ''{'' # questionsKey) searchStart"
  let ?p2 = "indexOf rawContent (''{ '' @ questionsKey) searchStart"
  let ?rem = "drop searchStart rawContent"
  let ?p3 = "case regexExec ?rem of None \<Rightarrow> None
     | Some m \<Rightarrow> (case indexOf ?rem m 0 of Some k \<Rightarrow> Some (searchStart + k)
         | None \<Rightarrow> if searchStart = 0 then None else Some (searchStart - 1))"
  let ?vs = "List.map_filter id [?p1, ?p2, ?p3]"
  have ok: "searchStart \<le> p \<and> p < length rawContent" if "p \<in> set ?vs" for p
  proof -
    from that have "Some p \<in> set [?p1, ?p2, ?p3]"
      unfolding set_map_filter_id by simp
    then consider "?p1 = Some p" | "?p2 = Some p" | "?p3 = Some p"
      by auto
    then show ?thesis
    proof cases
      case 1
      from indexOf_bounds [OF 1] show ?thesis by simp
    next
      case 2
      from indexOf_bounds [OF 2] show ?thesis by simp
    next
      case 3
      then obtain m where m: "regexExec ?rem = Some m" by (auto split: option.splits)
      from regexExec_occurs [OF m] obtain k where ne: "m \<noteq> []" and k: "findFirst m ?rem = Some k"
        by blast
      from k have ix: "indexOf ?rem m 0 = Some k" by (simp add: indexOf_def)
      from 3 m ix have p: "p = searchStart + k" by simp
      from findFirst_bound [OF k] ne have "k < length rawContent - searchStart"
        by (cases m) auto
      with p show ?thesis by simp
    qed
  qed
  from assms have ne: "?vs \<noteq> []" and js: "jsonStart = minimum ?vs"
    by (auto simp: findCandidate_def Let_def split: if_splits)
  from minimum_bounds [OF ne, of searchStart "length rawContent"] ok js show ?thesis by blast
qed

lemma scanBraces_bounds:
  "scanBraces s i braceCount inString escapeNext = Some e \<Longrightarrow> i < e \<and> e \<le> i + length s"
proof (induction s arbitrary: i braceCount inString escapeNext)
  case Nil
  then show ?case by simp
next
  case (Cons char rest)
  from Cons.prems consider
      (rec) b s x where "scanBraces rest (i + 1) b s x = Some e"
    | (found) "e = i + 1"
    by (auto simp: Let_def split: if_splits)
  then show ?case
  proof cases
    case rec
    from Cons.IH [OF rec] show ?thesis by simp
  next
    case found
    then show ?thesis by simp
  qed
qed

lemma findClosing_bounds:
  assumes "findClosing rawContent jsonStart = Some jsonEnd" and "jsonStart < length rawContent"
  shows "jsonStart < jsonEnd \<and> jsonEnd \<le> length rawContent"
  using scanBraces_bounds [OF assms(1) [unfolded findClosing_def]] assms(2) by simp

lemma scanStep_advances:
  assumes "scanStep handleBlock rawContent searchStart allQuestions = Some (next, allQuestions')"
  shows "searchStart < next \<and> next \<le> length rawContent"
proof -
  from assms obtain jsonStart where c: "findCandidate rawContent searchStart = Some jsonStart"
    by (auto simp: scanStep_def split: option.splits)
  from findCandidate_bounds [OF c] have b: "searchStart \<le> jsonStart" "jsonStart < length rawContent"
    by simp_all
  show ?thesis
  proof (cases "findClosing rawContent jsonStart")
    case None
    with assms c b show ?thesis by (simp add: scanStep_def)
  next
    case (Some jsonEnd)
    from findClosing_bounds [OF Some b(2)] assms c Some b show ?thesis
      by (simp add: scanStep_def)
  qed
qed

function scanLoop :: "(string \<Rightarrow> jsval list) \<Rightarrow> string \<Rightarrow> nat \<Rightarrow> jsval list \<Rightarrow> jsval list" where
  "scanLoop handleBlock rawContent searchStart allQuestions =
     (case scanStep handleBlock rawContent searchStart allQuestions of
        None \<Rightarrow> allQuestions
      | Some (next, allQuestions') \<Rightarrow> scanLoop handleBlock rawContent next allQuestions')"
  by pat_completeness auto
termination
proof (relation "measure (\<lambda>(h, rawContent, searchStart, a). length rawContent - searchStart)", goal_cases)
  case 1
  show ?case by (rule wf_measure)
next
  case (2 handleBlock rawContent searchStart allQuestions x2 nxt y)
  then have "scanStep handleBlock rawContent searchStart allQuestions = Some (nxt, y)" by simp
  from scanStep_advances [OF this] have "length rawContent - nxt < length rawContent - searchStart"
    by arith
  then show ?case by simp
qed

declare scanLoop.simps [simp del]

text \<open>
  The deduplication loop. \<open>seenLabels\<close> is a \<open>Set\<close>: membership is \<open>sameValueZero\<close>. Reading
  \<open>q.question_label\<close> throws when \<open>q\<close> is null.
\<close>

fun dedupLoop :: "jsval list \<Rightarrow> jsval list \<Rightarrow> jsval list \<Rightarrow> js_error + jsval list" where
  "dedupLoop [] seenLabels uniqueQuestions = Inr uniqueQuestions"
| "dedupLoop (q # rest) seenLabels uniqueQuestions =
     (case getProp q ''question_label'' of
        Inl e \<Rightarrow> Inl e
      | Inr l \<Rightarrow>
          (let label = orElse l (JStr '''') in
           if \<not> list_ex (\<lambda>x. sameValueZero x label) seenLabels
           then dedupLoop rest (seenLabels @ [label]) (uniqueQuestions @ [q])
           else dedupLoop rest seenLabels uniqueQuestions))"

text \<open>
  The Markdown fallback. The regular expressions are the engine's affair:
  \<open>questionPattern re p rawContent\<close> lists the successive matches of the \<open>p\<close>-th question
  pattern over the text, each as \<open>(match[0], match[1], match[2])\<close>; \<open>lowercaseChoice\<close> and
  \<open>uppercaseChoice\<close> list the matches of the two choice patterns in a block, each as
  \<open>(choiceMatch[1], choiceMatch[2])\<close>; \<open>splitAtChoice\<close> is element \<open>0\<close> of
  \<open>questionBlock.split(...)\<close>. \<open>toLowerCase\<close> is applied to one letter of \<open>A\<close> to \<open>E\<close>.
\<close>

record regex_engine =
  questionPattern :: "nat \<Rightarrow> string \<Rightarrow> (string \<times> string \<times> string) list"
  lowercaseChoice :: "string \<Rightarrow> (string \<times> string) list"
  uppercaseChoice :: "string \<Rightarrow> (string \<times> string) list"
  splitAtChoice :: "string \<Rightarrow> string"

definition markdownQuestion :: "regex_engine \<Rightarrow> string \<times> string \<times> string \<Rightarrow> jsval option" where
  "markdownQuestion re m =
     (case m of (m0, questionLabel, m2) \<Rightarrow>
        let questionBlock = (if m2 \<noteq> [] then m2 else m0);
            lower = map (\<lambda>(c1, c2). ''('' @ c1 @ '') '' @ trim c2) (lowercaseChoice re questionBlock);
            choices =
              (if lower = []
               then map (\<lambda>(c1, c2). ''('' @ toLowerCase c1 @ '') '' @ trim c2)
                      (uppercaseChoice re questionBlock)
               else lower);
            questionText =
              (if choices \<noteq> [] then trim (splitAtChoice re questionBlock) else questionBlock)
        in if questionText \<noteq> []
           then Some (JObj [(''question_label'', JStr questionLabel),
                            (''text'', JStr (trim questionText)),
                            (''choices'', JArr (map JStr choices))])
           else None)"

fun markdownPatterns :: "regex_engine \<Rightarrow> string \<Rightarrow> nat list \<Rightarrow> jsval list" where
  "markdownPatterns re rawContent [] = []"
| "markdownPatterns re rawContent (p # ps) =
     (let found = List.map_filter (markdownQuestion re) (questionPattern re p rawContent)
      in if found \<noteq> [] then found else markdownPatterns re rawContent ps)"

definition markdownFallback :: "regex_engine \<Rightarrow> string \<Rightarrow> jsval list" where
  "markdownFallback re rawContent = markdownPatterns re rawContent [0, 1, 2]"

text \<open>
  The result object. The \<open>catch\<close> around the whole body returns
  \<open>{questions: [], raw_content, parse_error}\<close>; the only statement of the body that can
  throw is the label read of the deduplication loop.
\<close>

record extraction =
  out_questions :: "jsval list"
  out_raw_content :: "string option"
  out_parse_error :: "js_error option"

definition extractWith ::
  "(string \<Rightarrow> jsval list) \<Rightarrow> regex_engine \<Rightarrow> string \<Rightarrow> extraction" where
  "extractWith handleBlock re rawContent =
     (let allQuestions = scanLoop handleBlock rawContent 0 [] in
      if allQuestions \<noteq> [] then
        (case dedupLoop allQuestions [] [] of
           Inr uniqueQuestions \<Rightarrow>
             \<lparr> out_questions = uniqueQuestions, out_raw_content = None, out_parse_error = None \<rparr>
         | Inl e \<Rightarrow>
             \<lparr> out_questions = [], out_raw_content = Some rawContent, out_parse_error = Some e \<rparr>)
      else
        \<lparr> out_questions = markdownFallback re rawContent,
          out_raw_content = None, out_parse_error = None \<rparr>)"

text \<open>The copy with the repair-and-retry step, and the copy without it.\<close>

definition parseQuestionsFromContent ::
  "(string \<Rightarrow> jsval option) \<Rightarrow> regex_engine \<Rightarrow> string \<Rightarrow> extraction" where
  "parseQuestionsFromContent jsonParse re rawContent =
     extractWith (blockQuestions jsonParse) re rawContent"

definition parseQuestionsFromContentNoRetry ::
  "(string \<Rightarrow> jsval option) \<Rightarrow> regex_engine \<Rightarrow> string \<Rightarrow> extraction" where
  "parseQuestionsFromContentNoRetry jsonParse re rawContent =
     extractWith (blockQuestionsNoRetry jsonParse) re rawContent"

subsection \<open>Reverse sync engine: the target store\<close>

text \<open>
  The target is a MongoDB collection reached through the driver's \<open>bulkWrite\<close>. It is
  modelled as explicit state: the list of its documents in insertion order, each the
  identifier \<open>_id\<close> with the list of its other fields, and the unique compound index the
  collection may carry (the syncer of lessons is written against \<open>exercise\<close>, whose unique
  index on \<open>order\<close>, \<open>chapter\<close>, \<open>type\<close> its comment names). An \<open>ObjectId\<close> is its 24
  lowercase hexadecimal digits. A field value is JSON data, an ObjectId, a DBRef or a
  date (milliseconds); \<open>BBuiltin k\<close> stands for what the driver writes for the value that
  a prototype holds under the name \<open>k\<close>, into which the model does not look. The driver
  writes \<open>undefined\<close> as null.
\<close>

type_synonym oid = string

datatype bson = BJson jsval | BObjectId oid | BDBRef string bson | BDate nat | BBuiltin string

type_synonym fields = "(string \<times> bson) list"

record mongo_doc =
  doc_id :: oid
  doc_fields :: fields

record collection =
  documents :: "(oid \<times> fields) list"
  uniqueIndex :: "string list option"

definition toBson :: "jsval \<Rightarrow> bson" where
  "toBson v = (if v = JUndefined then BJson JNull else BJson v)"

text \<open>A query or an index reads a missing field as null.\<close>

definition fieldOrNull :: "fields \<Rightarrow> string \<Rightarrow> bson" where
  "fieldOrNull e k = (case map_of e k of None \<Rightarrow> BJson JNull | Some v \<Rightarrow> v)"

definition matchesAll :: "fields \<Rightarrow> fields \<Rightarrow> bool" where
  "matchesAll eqs e = list_all (\<lambda>(k, v). fieldOrNull e k = v) eqs"

text \<open>\<open>$set\<close>: a field that exists is replaced where it stands, a new one is appended.\<close>

fun setField :: "string \<Rightarrow> bson \<Rightarrow> fields \<Rightarrow> fields" where
  "setField k v [] = [(k, v)]"
| "setField k v ((k', v') # e) = (if k' = k then (k, v) # e else (k', v') # setField k v e)"

definition setFields :: "fields \<Rightarrow> fields \<Rightarrow> fields" where
  "setFields fs e = foldl (\<lambda>e (k, v). setField k v e) e fs"

fun replaceDoc :: "oid \<Rightarrow> fields \<Rightarrow> (oid \<times> fields) list \<Rightarrow> (oid \<times> fields) list" where
  "replaceDoc i e' [] = []"
| "replaceDoc i e' ((j, e) # ds) = (if j = i then (i, e') # ds else (j, e) # replaceDoc i e' ds)"

definition indexKey :: "string list \<Rightarrow> fields \<Rightarrow> bson list" where
  "indexKey keys e = map (fieldOrNull e) keys"

text \<open>
  A write of the document \<open>e'\<close> under \<open>i\<close> is rejected (duplicate key) when the collection
  has a unique index and another document has the same index key.
\<close>

definition indexConflict :: "collection \<Rightarrow> oid \<Rightarrow> fields \<Rightarrow> bool" where
  "indexConflict c i e' =
     (case uniqueIndex c of
        None \<Rightarrow> False
      | Some keys \<Rightarrow>
          list_ex (\<lambda>(j, e). j \<noteq> i \<and> indexKey keys e = indexKey keys e') (documents c))"

text \<open>
  The two operations the syncers send. \<open>DeleteMany i eqs\<close> has the filter
  \<open>{_id: {$ne: i}, k: v, ...}\<close> for the pairs of \<open>eqs\<close>. \<open>UpdateOne i upd soi\<close> has the filter
  \<open>{_id: i}\<close>, the update \<open>{$set: upd, $setOnInsert: soi}\<close> and \<open>upsert: true\<close>.
\<close>

datatype write_op = DeleteMany oid fields | UpdateOne oid fields fields

record bulk_result =
  upsertedCount :: nat
  modifiedCount :: nat
  matchedCount :: nat
  deletedCount :: nat
  writeErrors :: nat

definition noResult :: bulk_result where
  "noResult = \<lparr> upsertedCount = 0, modifiedCount = 0, matchedCount = 0, deletedCount = 0,
                writeErrors = 0 \<rparr>"

text \<open>
  The write of an \<open>updateOne\<close>: \<open>updateIn\<close> when the filter matches the document \<open>e\<close>, which
  becomes \<open>e'\<close>, and \<open>upsertInto\<close> when it matches none and \<open>e'\<close> is inserted.
\<close>

definition updateIn ::
  "collection \<Rightarrow> bulk_result \<Rightarrow> oid \<Rightarrow> fields \<Rightarrow> fields \<Rightarrow> collection \<times> bulk_result" where
  "updateIn c r i e e' =
     (if indexConflict c i e' then (c, r \<lparr> writeErrors := writeErrors r + 1 \<rparr>)
      else (c \<lparr> documents := replaceDoc i e' (documents c) \<rparr>,
            r \<lparr> matchedCount := matchedCount r + 1,
                modifiedCount := modifiedCount r + (if e' \<noteq> e then 1 else 0) \<rparr>))"

definition upsertInto ::
  "collection \<Rightarrow> bulk_result \<Rightarrow> oid \<Rightarrow> fields \<Rightarrow> collection \<times> bulk_result" where
  "upsertInto c r i e' =
     (if indexConflict c i e' then (c, r \<lparr> writeErrors := writeErrors r + 1 \<rparr>)
      else (c \<lparr> documents := documents c @ [(i, e')] \<rparr>,
            r \<lparr> upsertedCount := upsertedCount r + 1 \<rparr>))"

fun applyOp :: "collection \<times> bulk_result \<Rightarrow> write_op \<Rightarrow> collection \<times> bulk_result" where
  "applyOp (c, r) (DeleteMany i eqs) =
     (let kept = filter (\<lambda>(j, e). \<not> (j \<noteq> i \<and> matchesAll eqs e)) (documents c)
      in (c \<lparr> documents := kept \<rparr>,
          r \<lparr> deletedCount := deletedCount r + (length (documents c) - length kept) \<rparr>))"
| "applyOp (c, r) (UpdateOne i upd soi) =
     (case map_of (documents c) i of
        Some e \<Rightarrow> updateIn c r i e (setFields upd e)
      | None \<Rightarrow> upsertInto c r i (setFields soi (setFields upd [])))"

text \<open>
  \<open>bulkWrite(ops, {ordered: false})\<close>: every operation is applied, in the order of the
  list; a rejected write does not stop the others. With a rejected write the call throws
  after the last operation (\<open>None\<close>), otherwise it returns the counts.
\<close>

definition bulkWrite :: "write_op list \<Rightarrow> collection \<Rightarrow> collection \<times> bulk_result option" where
  "bulkWrite ops c =
     (case foldl applyOp (c, noResult) ops of
        (c', r) \<Rightarrow> (c', if writeErrors r = 0 then Some r else None))"

subsection \<open>Reverse sync engine: the syncers\<close>

text \<open>
  \<open>helpers.js\<close>. \<open>toObjectId\<close> throws on anything but a string of length 24, and the
  \<open>ObjectId\<close> constructor throws when the 24 characters are not hexadecimal digits.
\<close>

definition BATCH_SIZE :: nat where
  "BATCH_SIZE = 100"

definition isHexChar :: "char \<Rightarrow> bool" where
  "isHexChar c = (c \<in> set ''0123456789abcdefABCDEF'')"

definition toObjectId :: "jsval \<Rightarrow> js_error + oid" where
  "toObjectId idv =
     (case idv of
        JStr s \<Rightarrow>
          if length s \<noteq> 24 then Inl PlainError
          else if list_all isHexChar s then Inr (toLowerCase s)
          else Inl BSONError
      | _ \<Rightarrow> Inl PlainError)"

text \<open>
  The reference maps of the context are plain objects: \<open>context.lessonRefIds = {}\<close>, filled
  by assignments \<open>m[key] = ref_id\<close> and read by \<open>m[key]\<close>. \<open>own_refs\<close> are the own
  properties and \<open>proto_ref\<close> the prototype when an assignment under the key \<open>__proto__\<close>
  has replaced \<open>Object.prototype\<close> by an object or an array (an assignment of a
  primitive under that key does nothing). A read finds an own property, then a property
  of the prototype chain: \<open>Value v\<close> is a value of the data, \<open>Builtin k\<close> the function or
  prototype object that \<open>Object.prototype\<close> (or \<open>Array.prototype\<close>, ES2023) holds under \<open>k\<close>,
  which is truthy and not a string.
\<close>

datatype looked = Value jsval | Builtin string

record refmap =
  own_refs :: "(string \<times> jsval) list"
  proto_ref :: "jsval option"

definition emptyRefs :: refmap where
  "emptyRefs = \<lparr> own_refs = [], proto_ref = None \<rparr>"

definition objectPrototypeKeys :: "string list" where
  "objectPrototypeKeys =
     [''constructor'', ''__defineGetter__'', ''__defineSetter__'', ''hasOwnProperty'',
      ''__lookupGetter__'', ''__lookupSetter__'', ''isPrototypeOf'', ''propertyIsEnumerable'',
      ''toString'', ''valueOf'', ''__proto__'', ''toLocaleString'']"

definition arrayPrototypeKeys :: "string list" where
  "arrayPrototypeKeys =
     [''length'', ''constructor'', ''at'', ''concat'', ''copyWithin'', ''fill'', ''find'',
      ''findIndex'', ''findLast'', ''findLastIndex'', ''lastIndexOf'', ''pop'', ''push'',
      ''reverse'', ''shift'', ''unshift'', ''slice'', ''sort'', ''splice'', ''includes'',
      ''indexOf'', ''join'', ''keys'', ''entries'', ''values'', ''forEach'', ''filter'',
      ''flat'', ''flatMap'', ''map'', ''every'', ''some'', ''reduce'', ''reduceRight'',
      ''toLocaleString'', ''toString'', ''toReversed'', ''toSorted'', ''toSpliced'', ''with'']"

definition arrayOwn :: "jsval list \<Rightarrow> string \<Rightarrow> jsval option" where
  "arrayOwn xs k =
     (if k = ''length'' then Some (JNum (int (length xs)))
      else case List.find (\<lambda>i. showDigits (int i) = k) [0..<length xs] of
             Some i \<Rightarrow> Some (xs ! i)
           | None \<Rightarrow> None)"

definition readRef :: "refmap \<Rightarrow> string \<Rightarrow> looked" where
  "readRef m k =
     (case map_of (own_refs m) k of
        Some v \<Rightarrow> Value v
      | None \<Rightarrow>
          (case proto_ref m of
             None \<Rightarrow> if k \<in> set objectPrototypeKeys then Builtin k else Value JUndefined
           | Some (JObj kvs) \<Rightarrow>
               (case map_of kvs k of
                  Some v \<Rightarrow> Value v
                | None \<Rightarrow>
                    if k = ''__proto__'' then Value (JObj kvs)
                    else if k \<in> set objectPrototypeKeys then Builtin k
                    else Value JUndefined)
           | Some (JArr xs) \<Rightarrow>
               (case arrayOwn xs k of
                  Some v \<Rightarrow> Value v
                | None \<Rightarrow>
                    if k = ''__proto__'' then Value (JArr xs)
                    else if k \<in> set arrayPrototypeKeys \<or> k \<in> set objectPrototypeKeys
                    then Builtin k
                    else Value JUndefined)
           | Some v \<Rightarrow> Value JUndefined))"

definition writeRef :: "refmap \<Rightarrow> string \<Rightarrow> jsval \<Rightarrow> refmap" where
  "writeRef m k v =
     (if k = ''__proto__'' then
        (case v of
           JObj kvs \<Rightarrow> m \<lparr> proto_ref := Some v \<rparr>
         | JArr xs \<Rightarrow> m \<lparr> proto_ref := Some v \<rparr>
         | _ \<Rightarrow> m)
      else m \<lparr> own_refs := (k, v) # filter (\<lambda>(k', v'). k' \<noteq> k) (own_refs m) \<rparr>)"

definition truthyLooked :: "looked \<Rightarrow> bool" where
  "truthyLooked l = (case l of Value v \<Rightarrow> truthy v | Builtin k \<Rightarrow> True)"

definition toDBRef :: "string \<Rightarrow> looked \<Rightarrow> js_error + bson" where
  "toDBRef collectionName idl =
     (case idl of
        Builtin k \<Rightarrow> Inr (BDBRef collectionName (BBuiltin k))
      | Value idv \<Rightarrow>
          if \<not> truthy idv then Inr (BJson JNull)
          else case idv of
                 JStr s \<Rightarrow> bindE (toObjectId idv)
                             (\<lambda>objectId. Inr (BDBRef collectionName (BObjectId objectId)))
               | _ \<Rightarrow> Inr (BDBRef collectionName (BJson idv)))"

text \<open>
  The statistics of a run. The clock readings \<open>startTime\<close>, \<open>endTime\<close> and \<open>duration\<close> are
  left out. \<open>matched_count\<close> is the property \<open>matched\<close>, which only the syncer of lessons
  sets.
\<close>

record sync_stats =
  total_count :: nat
  inserted :: nat
  updated :: nat
  skipped :: nat
  errors :: nat
  matched_count :: "nat option"

definition createStats :: sync_stats where
  "createStats = \<lparr> total_count = 0, inserted = 0, updated = 0, skipped = 0, errors = 0,
                    matched_count = None \<rparr>"

text \<open>
  What a syncer works on besides its statistics: the collection, and the clock that
  \<open>new Date()\<close> reads; \<open>clock env k\<close> is the \<open>k\<close>-th reading.
\<close>

record mongo_env =
  coll :: collection
  clock :: "nat \<Rightarrow> nat"
  reads :: nat

text \<open>\<open>BaseReverseSyncer.batchUpsert\<close>. \<open>$set: doc\<close> names \<open>_id\<close> too, with the value it has.\<close>

definition baseBatchUpsert :: "mongo_doc list \<Rightarrow> sync_stats \<times> mongo_env \<Rightarrow> sync_stats \<times> mongo_env" where
  "baseBatchUpsert docs se =
     (case se of (stats, env) \<Rightarrow>
        if docs = [] then (stats, env)
        else
          let operations = map (\<lambda>doc. UpdateOne (doc_id doc) (doc_fields doc) []) docs in
          case bulkWrite operations (coll env) of
            (c', Some result) \<Rightarrow>
              (stats \<lparr> inserted := inserted stats + upsertedCount result,
                       updated := updated stats + modifiedCount result \<rparr>,
               env \<lparr> coll := c' \<rparr>)
          | (c', None) \<Rightarrow>
              (stats \<lparr> errors := errors stats + length docs \<rparr>, env \<lparr> coll := c' \<rparr>))"

text \<open>
  \<open>LessonReverseSyncer.batchUpsert\<close>: the delete operations, whose failure is only logged,
  then the upserts stamped with \<open>now\<close>.
\<close>

definition conflictFilter :: "mongo_doc \<Rightarrow> fields" where
  "conflictFilter doc =
     [(''order'', fieldOrNull (doc_fields doc) ''order''),
      (''chapter'', fieldOrNull (doc_fields doc) ''chapter''),
      (''type'', fieldOrNull (doc_fields doc) ''type'')]"

definition lessonBatchUpsert :: "mongo_doc list \<Rightarrow> sync_stats \<times> mongo_env \<Rightarrow> sync_stats \<times> mongo_env" where
  "lessonBatchUpsert docs se =
     (case se of (stats, env) \<Rightarrow>
        if docs = [] then (stats, env)
        else
          let deleteOperations = map (\<lambda>doc. DeleteMany (doc_id doc) (conflictFilter doc)) docs;
              c1 = fst (bulkWrite deleteOperations (coll env));
              now = clock env (reads env);
              env1 = env \<lparr> reads := reads env + 1 \<rparr>;
              upsertOperations =
                map (\<lambda>doc. UpdateOne (doc_id doc)
                              (doc_fields doc @ [(''updated_at'', BDate now)])
                              [(''created_at'', BDate now)]) docs
          in case bulkWrite upsertOperations c1 of
               (c2, Some result) \<Rightarrow>
                 (stats \<lparr> inserted := inserted stats + upsertedCount result,
                          updated := updated stats + modifiedCount result,
                          matched_count :=
                            Some ((case matched_count stats of None \<Rightarrow> 0 | Some m \<Rightarrow> m)
                                  + matchedCount result) \<rparr>,
                  env1 \<lparr> coll := c2 \<rparr>)
             | (c2, None) \<Rightarrow>
                 (stats \<lparr> errors := errors stats + length docs \<rparr>, env1 \<lparr> coll := c2 \<rparr>))"

text \<open>
  The context that \<open>preSyncHook\<close> fills. \<open>loadRefIds\<close> is the loop over the fetched rows,
  and \<open>refIdOf m key\<close> the read \<open>m[key]\<close>, whose key is converted to a string first.
\<close>

record sync_context =
  bookRefIds :: refmap
  chapterRefIds :: refmap
  lessonRefIds :: refmap

definition emptyContext :: sync_context where
  "emptyContext = \<lparr> bookRefIds = emptyRefs, chapterRefIds = emptyRefs, lessonRefIds = emptyRefs \<rparr>"

fun loadRefIds :: "jsval list \<Rightarrow> refmap \<Rightarrow> js_error + refmap" where
  "loadRefIds [] m = Inr m"
| "loadRefIds (row # rest) m =
     (case getProp row ''ref_id'' of
        Inl e \<Rightarrow> Inl e
      | Inr r \<Rightarrow>
          if truthy r then
            (case getProp row ''id'' of
               Inl e \<Rightarrow> Inl e
             | Inr i \<Rightarrow>
                 (case js_String i of
                    Inl e \<Rightarrow> Inl e
                  | Inr k \<Rightarrow> loadRefIds rest (writeRef m k r)))
          else loadRefIds rest m)"

definition refIdOf :: "refmap \<Rightarrow> jsval \<Rightarrow> js_error + looked" where
  "refIdOf m key = bindE (js_String key) (\<lambda>k. Inr (readRef m k))"

definition lessonPreSyncHook :: "jsval list \<Rightarrow> jsval list \<Rightarrow> js_error + sync_context" where
  "lessonPreSyncHook books chapters =
     bindE (loadRefIds books emptyRefs) (\<lambda>b.
     bindE (loadRefIds chapters emptyRefs) (\<lambda>c.
       Inr \<lparr> bookRefIds = b, chapterRefIds = c, lessonRefIds = emptyRefs \<rparr>))"

definition lessonItemPreSyncHook :: "jsval list \<Rightarrow> js_error + sync_context" where
  "lessonItemPreSyncHook lessons =
     bindE (loadRefIds lessons emptyRefs) (\<lambda>l.
       Inr \<lparr> bookRefIds = emptyRefs, chapterRefIds = emptyRefs, lessonRefIds = l \<rparr>)"

text \<open>
  \<open>LessonReverseSyncer.transformItem\<close> and \<open>LessonItemReverseSyncer.transformItem\<close>. A
  source row is the JSON object the relational store returns. The result is the
  document, \<open>None\<close> for \<open>null\<close>, or the error thrown.
\<close>

definition rowField :: "jsval \<Rightarrow> string \<Rightarrow> js_error + bson" where
  "rowField item k = bindE (getProp item k) (\<lambda>v. Inr (toBson v))"

definition lessonTransformItem :: "jsval \<Rightarrow> sync_context \<Rightarrow> js_error + mongo_doc option" where
  "lessonTransformItem item context =
     bindE (getProp item ''book_id'') (\<lambda>book_id.
     bindE (refIdOf (bookRefIds context) book_id) (\<lambda>bookRefId.
     bindE (getProp item ''chapter_id'') (\<lambda>chapter_id.
     bindE (refIdOf (chapterRefIds context) chapter_id) (\<lambda>chapterRefId.
     bindE (getProp item ''ref_id'') (\<lambda>ref_id.
     bindE (toObjectId ref_id) (\<lambda>objectId.
     bindE (rowField item ''name'') (\<lambda>name.
     bindE (rowField item ''question_range'') (\<lambda>question_range.
     bindE (rowField item ''display_order'') (\<lambda>display_order.
     bindE (rowField item ''common_parent_section_name'') (\<lambda>common_parent_section_name.
     bindE (rowField item ''parent_section_name'') (\<lambda>parent_section_name.
     bindE (rowField item ''toc_output_json'') (\<lambda>toc_output_json.
     bindE (if truthyLooked bookRefId then toDBRef ''book'' bookRefId else Inr (BJson JNull)) (\<lambda>book.
     bindE (if truthyLooked chapterRefId then toDBRef ''chapter'' chapterRefId else Inr (BJson JNull)) (\<lambda>chapter.
       Inr (Some \<lparr> doc_id = objectId,
                   doc_fields =
                     [(''name'', name),
                      (''index'', question_range),
                      (''order'', display_order),
                      (''common_parent_section_name'', common_parent_section_name),
                      (''parent_section_name'', parent_section_name),
                      (''toc_output_json'', toc_output_json),
                      (''toc_status'', BJson (JStr ''COMPLETED'')),
                      (''type'', BJson (JStr ''EXAMPLE'')),
                      (''book'', book),
                      (''chapter'', chapter)] \<rparr>)))))))))))))))"

definition lessonItemTransformItem :: "jsval \<Rightarrow> sync_context \<Rightarrow> js_error + mongo_doc option" where
  "lessonItemTransformItem item context =
     bindE (getProp item ''lesson_id'') (\<lambda>lesson_id.
     bindE (refIdOf (lessonRefIds context) lesson_id) (\<lambda>lessonRefId.
       if \<not> truthyLooked lessonRefId then Inr None
       else
         bindE (getProp item ''ref_id'') (\<lambda>ref_id.
         bindE (toObjectId ref_id) (\<lambda>objectId.
         bindE (toDBRef ''exercise'' lessonRefId) (\<lambda>exercise.
         bindE (rowField item ''problem_statement'') (\<lambda>question.
         bindE (rowField item ''index'') (\<lambda>index.
         bindE (rowField item ''question_label'') (\<lambda>question_label.
         bindE (rowField item ''question_type'') (\<lambda>question_type.
         bindE (rowField item ''question_solution_item_json'') (\<lambda>question_solution_item_json.
           Inr (Some \<lparr> doc_id = objectId,
                       doc_fields =
                         [(''exercise'', exercise),
                          (''question'', question),
                          (''index'', index),
                          (''display_order'', question_label),
                          (''question_label'', question_label),
                          (''question_type'', question_type),
                          (''question_solution_item_json'', question_solution_item_json)] \<rparr>)))))))))))"

text \<open>
  \<open>BaseReverseSyncer.sync\<close>. \<open>batchUpsert\<close> and \<open>transformItem\<close> are the methods a subclass
  overrides. \<open>syncItem\<close> is the body of the \<open>for\<close> loop, with its \<open>try\<close> and \<open>catch\<close>: the
  state is the current batch, the statistics and the target. The \<open>catch\<close> block builds
  its log line from \<open>item.id\<close> (\<open>itemLabel\<close>) before it counts the error; when that
  throws, nothing catches it inside the loop and the run ends with this error.
  \<open>syncRows\<close> is the run once the hook has filled the context and the rows are fetched;
  in \<open>sync\<close> the outcomes of those two awaited calls are arguments, and a failure of
  either is thrown to the caller, as is a failure of the loop.
\<close>

definition itemLabel :: "jsval \<Rightarrow> js_error + string" where
  "itemLabel item = bindE (getProp item ''id'') js_String"

fun foldE :: "('s \<Rightarrow> 'a \<Rightarrow> js_error + 's) \<Rightarrow> 's \<Rightarrow> 'a list \<Rightarrow> js_error + 's" where
  "foldE f s [] = Inr s"
| "foldE f s (x # xs) = bindE (f s x) (\<lambda>s'. foldE f s' xs)"

definition syncItem ::
  "(mongo_doc list \<Rightarrow> sync_stats \<times> 'env \<Rightarrow> sync_stats \<times> 'env) \<Rightarrow>
   (jsval \<Rightarrow> sync_context \<Rightarrow> js_error + mongo_doc option) \<Rightarrow> sync_context \<Rightarrow>
   mongo_doc list \<times> sync_stats \<times> 'env \<Rightarrow> jsval \<Rightarrow> js_error + mongo_doc list \<times> sync_stats \<times> 'env" where
  "syncItem batchUpsert transformItem context state item =
     (case state of (batch, stats, env) \<Rightarrow>
        let caught = bindE (itemLabel item) (\<lambda>label.
                       Inr (batch, stats \<lparr> errors := errors stats + 1 \<rparr>, env))
        in case getProp item ''ref_id'' of
          Inl e \<Rightarrow> caught
        | Inr ref_id \<Rightarrow>
            if \<not> truthy ref_id then Inr (batch, stats \<lparr> skipped := skipped stats + 1 \<rparr>, env)
            else
              (case transformItem item context of
                 Inl e \<Rightarrow> caught
               | Inr document \<Rightarrow>
                   (let (batch1, stats1) =
                          (case document of
                             Some d \<Rightarrow> (batch @ [d], stats)
                           | None \<Rightarrow> (batch, stats \<lparr> skipped := skipped stats + 1 \<rparr>))
                    in if length batch1 \<ge> BATCH_SIZE
                       then (case batchUpsert batch1 (stats1, env) of
                               (stats2, env2) \<Rightarrow> Inr ([], stats2, env2))
                       else Inr (batch1, stats1, env))))"

definition syncRows ::
  "(mongo_doc list \<Rightarrow> sync_stats \<times> 'env \<Rightarrow> sync_stats \<times> 'env) \<Rightarrow>
   (jsval \<Rightarrow> sync_context \<Rightarrow> js_error + mongo_doc option) \<Rightarrow> sync_context \<Rightarrow>
   jsval list \<Rightarrow> 'env \<Rightarrow> js_error + sync_stats \<times> 'env" where
  "syncRows batchUpsert transformItem context supabaseData env =
     (let stats = createStats \<lparr> total_count := length supabaseData \<rparr> in
      if total_count stats = 0 then Inr (stats, env)
      else
        bindE (foldE (syncItem batchUpsert transformItem context) ([], stats, env) supabaseData)
          (\<lambda>(batch, stats', env').
             Inr (if batch \<noteq> [] then batchUpsert batch (stats', env') else (stats', env'))))"

definition sync ::
  "(mongo_doc list \<Rightarrow> sync_stats \<times> 'env \<Rightarrow> sync_stats \<times> 'env) \<Rightarrow>
   (jsval \<Rightarrow> sync_context \<Rightarrow> js_error + mongo_doc option) \<Rightarrow>
   js_error + sync_context \<Rightarrow> js_error + jsval list \<Rightarrow> 'env \<Rightarrow>
   js_error + sync_stats \<times> 'env" where
  "sync batchUpsert transformItem hooked fetched env =
     bindE hooked (\<lambda>context.
     bindE fetched (\<lambda>supabaseData.
       syncRows batchUpsert transformItem context supabaseData env))"

definition lessonSync ::
  "js_error + sync_context \<Rightarrow> js_error + jsval list \<Rightarrow> mongo_env \<Rightarrow> js_error + sync_stats \<times> mongo_env" where
  "lessonSync = sync lessonBatchUpsert lessonTransformItem"

definition lessonItemSync ::
  "js_error + sync_context \<Rightarrow> js_error + jsval list \<Rightarrow> mongo_env \<Rightarrow> js_error + sync_stats \<times> mongo_env" where
  "lessonItemSync = sync baseBatchUpsert lessonItemTransformItem"

section \<open>Properties\<close>

subsection \<open>Sequencing of operations that can throw\<close>

lemma bindE_Inr: "(bindE x f = Inr r) = (\<exists>v. x = Inr v \<and> f v = Inr r)"
  by (cases x) (simp_all add: bindE_def)

lemma bindE_simps [simp]: "bindE (Inr v) f = f v" "bindE (Inl e) f = Inl e"
  by (simp_all add: bindE_def)

subsection \<open>Escape-sequence repairer\<close>

lemma drop_two: "i + 1 < length s \<Longrightarrow> drop i s = s ! i # s ! (i + 1) # drop (i + 2) s"
  by (simp add: Cons_nth_drop_Suc)

lemma drop_last_one: "i < length s \<Longrightarrow> \<not> i + 1 < length s \<Longrightarrow> drop i s = [s ! i]"
  by (metis Cons_nth_drop_Suc Suc_eq_plus1 drop_all not_less)

lemma validEscapes_spec: "(d \<in> set validEscapes) = spec_validEscape d"
  by (auto simp: validEscapes_def spec_validEscape_def)

lemma fix_refines_aux:
  "length s - i = n \<Longrightarrow>
     fixOuter s i r = r @ spec_copyOutside (drop i s) \<and>
     fixOuter s (fst (fixInner s i r)) (snd (fixInner s i r)) = r @ spec_repairInside (drop i s)"
proof (induction n arbitrary: i r rule: less_induct)
  case (less n)
  show ?case
  proof (cases "i < length s")
    case False
    then show ?thesis
      by (simp add: fixOuter.simps fixInner.simps)
  next
    case inb: True
    have IH: "fixOuter s j q = q @ spec_copyOutside (drop j s) \<and>
        fixOuter s (fst (fixInner s j q)) (snd (fixInner s j q)) = q @ spec_repairInside (drop j s)"
      if "i < j" for j q
    proof -
      have "length s - j < n" using that inb less.prems by arith
      from less.IH [OF this refl] show ?thesis .
    qed
    have outer: "fixOuter s i r = r @ spec_copyOutside (drop i s)"
    proof (cases "s ! i = CHR 0x22")
      case True
      have "fixOuter s i r =
            fixOuter s (fst (fixInner s (i + 1) (r @ [CHR 0x22]))) (snd (fixInner s (i + 1) (r @ [CHR 0x22])))"
        using inb True by (subst fixOuter.simps) (simp add: case_prod_beta)
      also have "\<dots> = (r @ [CHR 0x22]) @ spec_repairInside (drop (i + 1) s)"
        using IH [of "i + 1"] by simp
      finally show ?thesis
        using inb True by (simp add: Cons_nth_drop_Suc [symmetric])
    next
      case False
      have "fixOuter s i r = fixOuter s (i + 1) (r @ [s ! i])"
        using inb False by (subst fixOuter.simps) simp
      also have "\<dots> = (r @ [s ! i]) @ spec_copyOutside (drop (i + 1) s)"
        using IH [of "i + 1"] by simp
      finally show ?thesis
        using inb False by (simp add: Cons_nth_drop_Suc [symmetric])
    qed
    have inner: "fixOuter s (fst (fixInner s i r)) (snd (fixInner s i r)) = r @ spec_repairInside (drop i s)"
    proof (cases "i + 1 < length s")
      case one: False
      have d: "drop i s = [s ! i]" using inb one by (rule drop_last_one)
      have e: "fixOuter s (i + 1) q = q" for q
        using one by (subst fixOuter.simps) simp
      have f: "fixInner s (i + 1) q = (i + 1, q)" for q
        using one by (subst fixInner.simps) simp
      show ?thesis
        using inb one d e f by (subst (1 2) fixInner.simps) (simp add: Let_def)
    next
      case two: True
      note d = drop_two [OF two]
      show ?thesis
      proof (cases "s ! i = CHR 0x5C")
        case bs: True
        show ?thesis
        proof (cases "s ! (i + 1) \<in> set validEscapes")
          case True
          have "fixInner s i r = fixInner s (i + 2) (r @ [s ! i, s ! (i + 1)])"
            using inb two bs True by (subst fixInner.simps) (simp add: Let_def)
          then show ?thesis
            using IH [of "i + 2" "r @ [s ! i, s ! (i + 1)]"] d bs True
            by (simp add: validEscapes_spec [symmetric])
        next
          case False
          have "fixInner s i r = fixInner s (i + 2) (r @ [CHR 0x5C, CHR 0x5C, s ! (i + 1)])"
            using inb two bs False by (subst fixInner.simps) (simp add: Let_def)
          then show ?thesis
            using IH [of "i + 2" "r @ [CHR 0x5C, CHR 0x5C, s ! (i + 1)]"] d bs False
            by (simp add: validEscapes_spec [symmetric])
        qed
      next
        case nbs: False
        show ?thesis
        proof (cases "s ! i = CHR 0x22")
          case True
          have "fixInner s i r = (i + 1, r @ [CHR 0x22])"
            using inb nbs True by (subst fixInner.simps) (simp add: Let_def)
          moreover have "drop (i + 1) s = s ! (i + 1) # drop (i + 2) s"
            using two by (simp add: Cons_nth_drop_Suc)
          ultimately show ?thesis
            using IH [of "i + 1" "r @ [CHR 0x22]"] d nbs True by simp
        next
          case False
          have "fixInner s i r = fixInner s (i + 1) (r @ [s ! i])"
            using inb nbs False by (subst fixInner.simps) (simp add: Let_def)
          moreover have "drop (i + 1) s = s ! (i + 1) # drop (i + 2) s"
            using two by (simp add: Cons_nth_drop_Suc)
          ultimately show ?thesis
            using IH [of "i + 1" "r @ [s ! i]"] d nbs False by simp
        qed
      qed
    qed
    from outer inner show ?thesis ..
  qed
qed

lemma spec_copyOutside_unquoted: "CHR 0x22 \<notin> set cs \<Longrightarrow> spec_copyOutside cs = cs"
  by (induction cs) auto

text \<open>
  C4. For every input string the repairer computes the scanner of the specification:
  outside string literals every character is copied verbatim; a double quote enters a
  literal; inside a literal a backslash followed by a character outside
  \<open>" \ / b f n r t u\<close> comes out as two backslashes and that character, a valid
  two-character escape (including \<open>\u\<close>, which is not decoded) is copied unchanged, a
  double quote that is not the second character of an escape leaves the literal, and a
  backslash that is the last character of the input is copied as it is. The further
  equations read this off on the shortest inputs: a text without double quote, a literal
  that holds one escape, and a literal that ends with the input on a backslash.
\<close>

theorem fixInvalidEscapeSequences_refines:
  "fixInvalidEscapeSequences jsonStr = spec_copyOutside jsonStr
   \<and> fixInvalidEscapeSequences (filter (\<lambda>c. c \<noteq> CHR 0x22) jsonStr) =
       filter (\<lambda>c. c \<noteq> CHR 0x22) jsonStr
   \<and> fixInvalidEscapeSequences [CHR 0x22, CHR 0x5C, d, c] =
       (if d \<in> {CHR 0x22, CHR 0x5C, CHR ''/'', CHR ''b'', CHR ''f'', CHR ''n'', CHR ''r'',
                 CHR ''t'', CHR ''u''}
        then [CHR 0x22, CHR 0x5C, d, c]
        else [CHR 0x22, CHR 0x5C, CHR 0x5C, d, c])
   \<and> fixInvalidEscapeSequences [CHR 0x22, c, CHR 0x5C] = [CHR 0x22, c, CHR 0x5C]"
proof -
  have eq: "fixInvalidEscapeSequences s = spec_copyOutside s" for s
    using fix_refines_aux [of s 0 "length s" "[]"]
    by (simp add: fixInvalidEscapeSequences_def)
  have unq: "spec_copyOutside (filter (\<lambda>c. c \<noteq> CHR 0x22) jsonStr) =
      filter (\<lambda>c. c \<noteq> CHR 0x22) jsonStr"
    by (rule spec_copyOutside_unquoted) simp
  have esc: "spec_copyOutside [CHR 0x22, CHR 0x5C, d, c] =
       (if d \<in> {CHR 0x22, CHR 0x5C, CHR ''/'', CHR ''b'', CHR ''f'', CHR ''n'', CHR ''r'',
                 CHR ''t'', CHR ''u''}
        then [CHR 0x22, CHR 0x5C, d, c]
        else [CHR 0x22, CHR 0x5C, CHR 0x5C, d, c])"
    by (auto simp: spec_validEscape_def)
  have last: "spec_copyOutside [CHR 0x22, c, CHR 0x5C] = [CHR 0x22, c, CHR 0x5C]"
    by (simp add: spec_validEscape_def)
  from unq esc last show ?thesis by (simp only: eq)
qed

subsection \<open>Identifier generation\<close>

lemma hexDigit_is: "d < 16 \<Longrightarrow> isHexDigit (hexDigit d)"
proof -
  assume d: "d < 16"
  have "list_all (\<lambda>d. isHexDigit (hexDigit d)) [0..<16]" by code_simp
  with d show ?thesis by (simp add: list_all_iff)
qed

lemma hexDigit_value: "d < 16 \<Longrightarrow> hexDigitValue (hexDigit d) = d"
proof -
  assume d: "d < 16"
  have "list_all (\<lambda>d. hexDigitValue (hexDigit d) = d) [0..<16]" by code_simp
  with d show ?thesis by (simp add: list_all_iff)
qed

lemma toString16_length: "n < 16 ^ k \<Longrightarrow> 0 < k \<Longrightarrow> length (toString16 n) \<le> k"
proof (induction n arbitrary: k rule: toString16.induct)
  case (1 n)
  show ?case
  proof (cases "n < 16")
    case True
    then show ?thesis using "1.prems" by (subst toString16.simps) simp
  next
    case False
    obtain j where k: "k = Suc j" using "1.prems" by (cases k) auto
    have j: "0 < j" using False "1.prems" k by (cases j) auto
    have "n div 16 < 16 ^ j" using "1.prems" k by (simp add: less_mult_imp_div_less mult.commute)
    from "1.IH" [OF False this j] show ?thesis using False k by (subst toString16.simps) simp
  qed
qed

lemma toString16_hex: "list_all isHexDigit (toString16 n)"
proof (induction n rule: toString16.induct)
  case (1 n)
  show ?case
    using "1.IH" by (subst toString16.simps) (auto simp: hexDigit_is)
qed

lemma hexValue_snoc: "hexValue (s @ [c]) = 16 * hexValue s + hexDigitValue c"
  by (simp add: hexValue_def)

lemma hexValue_toString16: "hexValue (toString16 n) = n"
proof (induction n rule: toString16.induct)
  case (1 n)
  show ?case
  proof (cases "n < 16")
    case True
    then show ?thesis by (subst toString16.simps) (simp add: hexValue_def hexDigit_value)
  next
    case False
    then show ?thesis using "1.IH"
      by (subst toString16.simps) (simp add: hexValue_snoc hexDigit_value)
  qed
qed

lemma hexValue_zeros: "hexValue (replicate k CHR ''0'' @ s) = hexValue s"
  by (induction k) (simp_all add: hexValue_def hexDigitValue_def)

lemma padStart_length: "length s \<le> k \<Longrightarrow> length (padStart k c s) = k"
  by (simp add: padStart_def)

lemma padStart_hex: "list_all isHexDigit s \<Longrightarrow> list_all isHexDigit (padStart k CHR ''0'' s)"
proof -
  assume s: "list_all isHexDigit s"
  have z: "isHexDigit CHR ''0''" by (simp add: isHexDigit_def)
  have "list_all isHexDigit (replicate n CHR ''0'')" for n
    using z by (induction n) simp_all
  with s show ?thesis by (simp add: padStart_def)
qed

lemma hexValue_padStart: "hexValue (padStart k CHR ''0'' (toString16 n)) = n"
  by (simp add: padStart_def hexValue_zeros hexValue_toString16)

lemma field_length: "n < 16 ^ k \<Longrightarrow> 0 < k \<Longrightarrow> length (padStart k CHR ''0'' (toString16 n)) = k"
  by (simp add: padStart_length toString16_length)

lemma byte_length: "length (padStart 2 CHR ''0'' (toString16 (unat (r :: 8 word)))) = 2"
proof -
  have "unat r < 2 ^ 8" using unsigned_less [of r] by simp
  then have "unat r < 16 ^ 2" by simp
  then show ?thesis by (rule field_length) simp
qed

lemma randomHex_length: "length (randomHex rs) = 10"
  by (cases rs) (simp add: randomHex_def byte_length)

lemma randomHex_hex: "list_all isHexDigit (randomHex rs)"
  by (cases rs) (simp add: randomHex_def padStart_hex toString16_hex)


text \<open>
  C9 (as amended). While the clock's seconds fit eight hexadecimal digits, every call
  returns 24 hexadecimal characters: the seconds timestamp in eight digits, the five
  random bytes in ten, and the new counter in six; the counter advances by one modulo
  \<open>0xffffff = 2 ^ 24 - 1\<close>, so it runs through \<open>0 .. 0xfffffe\<close> and never takes the
  value \<open>0xffffff\<close>.
\<close>

theorem generateMongoId_format:
  assumes "now div 1000 < 2 ^ 32"
  shows "length (fst (generateMongoId now rs counter)) = 24
     \<and> list_all isHexDigit (fst (generateMongoId now rs counter))
     \<and> hexValue (take 8 (fst (generateMongoId now rs counter))) = now div 1000
     \<and> take 10 (drop 8 (fst (generateMongoId now rs counter))) = randomHex rs
     \<and> hexValue (drop 18 (fst (generateMongoId now rs counter))) = snd (generateMongoId now rs counter)
     \<and> snd (generateMongoId now rs counter) = (counter + 1) mod (2 ^ 24 - 1)"
proof -
  let ?ts = "padStart 8 CHR ''0'' (toString16 (now div 1000))"
  let ?c = "(counter + 1) mod 0xffffff"
  let ?cnt = "padStart 6 CHR ''0'' (toString16 ?c)"
  have id: "generateMongoId now rs counter = (?ts @ randomHex rs @ ?cnt, ?c)"
    by (simp add: generateMongoId_def Let_def)
  have "now div 1000 < 16 ^ 8" using assms by simp
  then have lts: "length ?ts = 8" by (rule field_length) simp
  have "?c < 16 ^ 6" by simp
  then have lc: "length ?cnt = 6" by (rule field_length) simp
  note lr = randomHex_length [of rs]
  show ?thesis
    unfolding id fst_conv snd_conv
    using lts lc lr
    by (simp add: padStart_hex toString16_hex randomHex_hex hexValue_padStart)
qed

theorem generateMongoId_format_witness:
  "length (fst (generateMongoId 1769126400000 (1, 255, 16, 0, 171) 16777213)) = 24
     \<and> snd (generateMongoId 1769126400000 (1, 255, 16, 0, 171) 16777213) = 16777214
     \<and> hexValue (take 8 (fst (generateMongoId 1769126400000 (1, 255, 16, 0, 171) 16777213))) = 1769126400"
  using generateMongoId_format [of 1769126400000 "(1, 255, 16, 0, 171)" 16777213]
  by simp

text \<open>
  C9 as stated fails: from the counter value \<open>0xfffffe\<close> the next value is \<open>0\<close>, where
  counting modulo \<open>2 ^ 24\<close> gives \<open>0xffffff\<close>.
\<close>

theorem generateMongoId_counter_counterexample:
  "snd (generateMongoId 1769126400000 (1, 255, 16, 0, 171) 16777214) = 0
   \<and> (16777214 + 1) mod 2 ^ 24 = (16777215 :: nat)"
  by (simp add: generateMongoId_def Let_def)

subsection \<open>Question/solution matcher\<close>

text \<open>
  \<open>storedUnder s k\<close>: the solution \<open>s\<close> is one the lookup-building loop stores under the
  key \<open>k\<close>, that is, its label is truthy and \<open>String\<close> of it is \<open>k\<close>. \<open>lastStored\<close> is the
  last such solution of the array, the one a later \<open>set\<close> leaves in the map.
\<close>

definition storedUnder :: "jsval \<Rightarrow> string \<Rightarrow> bool" where
  "storedUnder s k =
     (case getProp s ''question_label'' of
        Inl e \<Rightarrow> False
      | Inr l \<Rightarrow> truthy l \<and> js_String l = Inr k)"








lemma storedUnder_getProp: "storedUnder s k \<Longrightarrow> \<exists>v. getProp s key = Inr v"
  by (cases s) (simp_all add: storedUnder_def)





lemma copiedField_stored: "storedUnder s k \<Longrightarrow> \<exists>v. copiedField s key = Inr v"
  using storedUnder_getProp [of s k key] by (auto simp: copiedField_def)












subsection \<open>Resilient JSON-block extractor: the scanning loop\<close>

text \<open>
  Two readings of a run of the loop from \<open>searchStart\<close>: \<open>searchStarts\<close> lists the values
  the passes assign to \<open>searchStart\<close>, one per pass that does not leave the loop, and
  \<open>jsonBlocks\<close> lists the substrings that are handed to the parser, in order. Both follow
  \<open>scanStep\<close>, the pass of the loop itself.
\<close>

function searchStarts :: "(string \<Rightarrow> jsval list) \<Rightarrow> string \<Rightarrow> nat \<Rightarrow> jsval list \<Rightarrow> nat list" where
  "searchStarts handleBlock rawContent searchStart allQuestions =
     (case scanStep handleBlock rawContent searchStart allQuestions of
        None \<Rightarrow> []
      | Some (next, allQuestions') \<Rightarrow>
          next # searchStarts handleBlock rawContent next allQuestions')"
  by pat_completeness auto
termination
proof (relation "measure (\<lambda>(h, rawContent, searchStart, a). length rawContent - searchStart)", goal_cases)
  case 1
  show ?case by (rule wf_measure)
next
  case (2 handleBlock rawContent searchStart allQuestions x2 nxt y)
  then have "scanStep handleBlock rawContent searchStart allQuestions = Some (nxt, y)" by simp
  from scanStep_advances [OF this] have "length rawContent - nxt < length rawContent - searchStart"
    by arith
  then show ?case by simp
qed

declare searchStarts.simps [simp del]

definition nextBlock :: "string \<Rightarrow> nat \<Rightarrow> (nat \<times> string option) option" where
  "nextBlock rawContent searchStart =
     (case findCandidate rawContent searchStart of
        None \<Rightarrow> None
      | Some jsonStart \<Rightarrow>
          (case findClosing rawContent jsonStart of
             Some jsonEnd \<Rightarrow> Some (jsonEnd, Some (substring rawContent jsonStart jsonEnd))
           | None \<Rightarrow> Some (jsonStart + 1, None)))"

lemma scanStep_nextBlock:
  "scanStep handleBlock rawContent searchStart allQuestions =
     (case nextBlock rawContent searchStart of
        None \<Rightarrow> None
      | Some (next, None) \<Rightarrow> Some (next, allQuestions)
      | Some (next, Some jsonStr) \<Rightarrow> Some (next, allQuestions @ handleBlock jsonStr))"
  by (simp add: scanStep_def nextBlock_def split: option.splits)

lemma nextBlock_advances:
  assumes "nextBlock rawContent searchStart = Some (next, b)"
  shows "searchStart < next \<and> next \<le> length rawContent"
proof -
  from assms have "\<exists>a. scanStep (\<lambda>s. []) rawContent searchStart [] = Some (next, a)"
    by (cases b) (simp_all add: scanStep_nextBlock)
  then show ?thesis using scanStep_advances by blast
qed

function jsonBlocks :: "string \<Rightarrow> nat \<Rightarrow> string list" where
  "jsonBlocks rawContent searchStart =
     (case nextBlock rawContent searchStart of
        None \<Rightarrow> []
      | Some (next, None) \<Rightarrow> jsonBlocks rawContent next
      | Some (next, Some jsonStr) \<Rightarrow> jsonStr # jsonBlocks rawContent next)"
  by pat_completeness auto
termination
proof (relation "measure (\<lambda>(rawContent, searchStart). length rawContent - searchStart)", goal_cases)
  case 1
  show ?case by (rule wf_measure)
next
  case (2 rawContent searchStart x2 nxt y)
  then have "nextBlock rawContent searchStart = Some (nxt, None)" by simp
  from nextBlock_advances [OF this] have "length rawContent - nxt < length rawContent - searchStart"
    by arith
  then show ?case by simp
next
  case (3 rawContent searchStart x2 nxt y jsonStr)
  then have "nextBlock rawContent searchStart = Some (nxt, Some jsonStr)" by simp
  from nextBlock_advances [OF this] have "length rawContent - nxt < length rawContent - searchStart"
    by arith
  then show ?case by simp
qed

declare jsonBlocks.simps [simp del]

lemma scanLoop_blocks:
  "scanLoop handleBlock rawContent searchStart allQuestions =
     allQuestions @ concat (map handleBlock (jsonBlocks rawContent searchStart))"
proof (induction handleBlock rawContent searchStart allQuestions rule: scanLoop.induct)
  case (1 handleBlock rawContent searchStart allQuestions)
  show ?case
  proof (cases "nextBlock rawContent searchStart")
    case None
    then show ?thesis
      by (subst scanLoop.simps, subst jsonBlocks.simps) (simp add: scanStep_nextBlock)
  next
    case (Some nb)
    obtain nxt b where nb: "nb = (nxt, b)" by (cases nb)
    show ?thesis
    proof (cases b)
      case None
      with Some nb have st: "scanStep handleBlock rawContent searchStart allQuestions = Some (nxt, allQuestions)"
        by (simp add: scanStep_nextBlock)
      from "1.IH" [OF st refl] st Some nb None show ?thesis
        by (subst scanLoop.simps, subst jsonBlocks.simps) simp
    next
      case (Some jsonStr)
      with \<open>nextBlock rawContent searchStart = Some nb\<close> nb
      have st: "scanStep handleBlock rawContent searchStart allQuestions =
          Some (nxt, allQuestions @ handleBlock jsonStr)"
        by (simp add: scanStep_nextBlock)
      from "1.IH" [OF st refl] st \<open>nextBlock rawContent searchStart = Some nb\<close> nb Some show ?thesis
        by (subst scanLoop.simps, subst jsonBlocks.simps) simp
    qed
  qed
qed

lemma searchStarts_properties:
  "sorted_wrt (<) (searchStart # searchStarts handleBlock rawContent searchStart allQuestions)
   \<and> list_all (\<lambda>c. c \<le> length rawContent) (searchStarts handleBlock rawContent searchStart allQuestions)
   \<and> length (searchStarts handleBlock rawContent searchStart allQuestions) \<le> length rawContent - searchStart"
proof (induction handleBlock rawContent searchStart allQuestions rule: searchStarts.induct)
  case (1 handleBlock rawContent searchStart allQuestions)
  show ?case
  proof (cases "scanStep handleBlock rawContent searchStart allQuestions")
    case None
    then show ?thesis by (subst (1 2 3) searchStarts.simps) simp
  next
    case (Some st)
    obtain nxt a where st: "st = (nxt, a)" by (cases st)
    from Some st have step: "scanStep handleBlock rawContent searchStart allQuestions = Some (nxt, a)"
      by simp
    from scanStep_advances [OF step] have adv: "searchStart < nxt" "nxt \<le> length rawContent"
      by simp_all
    let ?rest = "searchStarts handleBlock rawContent nxt a"
    from "1.IH" [OF step refl] have
      s: "sorted_wrt (<) (nxt # ?rest)" and
      b: "list_all (\<lambda>c. c \<le> length rawContent) ?rest" and
      l: "length ?rest \<le> length rawContent - nxt"
      by simp_all
    have eq: "searchStarts handleBlock rawContent searchStart allQuestions = nxt # ?rest"
      using step by (subst searchStarts.simps) simp
    from s adv have "sorted_wrt (<) (searchStart # nxt # ?rest)" by auto
    moreover from b adv have "list_all (\<lambda>c. c \<le> length rawContent) (nxt # ?rest)" by simp
    moreover from l adv have "length (nxt # ?rest) \<le> length rawContent - searchStart" by simp
    ultimately show ?thesis unfolding eq by blast
  qed
qed

text \<open>A text with two blocks and an unclosed candidate, for the examples below.\<close>

definition example_text :: string where
  "example_text =
     ''Noise {'' @ questionsKey @ '': [1]} and {  '' @ questionsKey @ '' : [2] } then { ''
       @ questionsKey @ '': [''"

text \<open>
  C10. For every text the scanning loop terminates: \<open>scanLoop\<close> is a total function,
  accepted with the measure \<open>length rawContent - searchStart\<close>. A pass either leaves the
  loop or moves \<open>searchStart\<close> strictly forward, to a position within the text; so the
  successive values of \<open>searchStart\<close> increase strictly, none exceeds the length of the
  text, and the passes that continue the loop number at most the length of the text (one
  more pass finds no candidate and leaves). This holds whatever is done with a block.
\<close>

theorem scanLoop_cursor_advances:
  "(\<forall>searchStart allQuestions next allQuestions'.
        scanStep handleBlock rawContent searchStart allQuestions = Some (next, allQuestions')
        \<longrightarrow> searchStart < next \<and> next \<le> length rawContent)
   \<and> sorted_wrt (<) (0 # searchStarts handleBlock rawContent 0 [])
   \<and> list_all (\<lambda>c. c \<le> length rawContent) (searchStarts handleBlock rawContent 0 [])
   \<and> length (searchStarts handleBlock rawContent 0 []) \<le> length rawContent"
  using scanStep_advances [of handleBlock rawContent]
    searchStarts_properties [of 0 handleBlock rawContent "[]"]
  by auto

definition rejectAll :: "string \<Rightarrow> jsval option" where
  "rejectAll s = None"

theorem scanLoop_cursor_advances_witness:
  "scanStep (blockQuestions rejectAll) example_text 0 [] = Some (24, [])
   \<and> (0 :: nat) < 24 \<and> 24 \<le> length example_text
   \<and> searchStarts (blockQuestions rejectAll) example_text 0 [] = [24, 51, 58]
   \<and> length example_text = 73"
proof -
  have step: "scanStep (blockQuestions rejectAll) example_text 0 [] = Some (24, [])"
    by code_simp
  have starts: "searchStarts (blockQuestions rejectAll) example_text 0 [] = [24, 51, 58]"
    by code_simp
  have len: "length example_text = 73"
    by code_simp
  from scanLoop_cursor_advances [of "blockQuestions rejectAll" example_text] step
  have "(0 :: nat) < 24 \<and> 24 \<le> length example_text" by blast
  with step starts len show ?thesis by simp
qed

subsection \<open>Resilient JSON-block extractor: deduplication\<close>

text \<open>
  \<open>labelKey q\<close> is the key the loop looks up and stores for \<open>q\<close>: \<open>q.question_label || ''\<close>.
  \<open>keptFrom seen qs\<close> picks, in order, the elements of \<open>qs\<close> whose key is neither in
  \<open>seen\<close> nor the key of an earlier element; \<open>firstSeen qs\<close> is the case of an empty
  \<open>seen\<close>: the first occurrence of every key.
\<close>

definition labelKey :: "jsval \<Rightarrow> jsval" where
  "labelKey q = (case getProp q ''question_label'' of Inl e \<Rightarrow> JUndefined | Inr l \<Rightarrow> orElse l (JStr ''''))"

definition keptFrom :: "jsval list \<Rightarrow> jsval list \<Rightarrow> jsval list" where
  "keptFrom seen qs =
     map (nth qs)
       (filter (\<lambda>i. \<not> list_ex (\<lambda>x. sameValueZero x (labelKey (qs ! i))) seen
                   \<and> \<not> list_ex (\<lambda>j. sameValueZero (labelKey (qs ! j)) (labelKey (qs ! i))) [0..<i])
          [0..<length qs])"

definition firstSeen :: "jsval list \<Rightarrow> jsval list" where
  "firstSeen qs = keptFrom [] qs"

lemma sameValueZero_eq: "sameValueZero a b \<Longrightarrow> a = b"
  by (cases a) simp_all

lemma upt_0_Suc: "[0..<Suc n] = 0 # map Suc [0..<n]"
  by (simp add: upt_conv_Cons map_Suc_upt del: upt_Suc)

lemma keptFrom_Nil: "keptFrom seen [] = []"
  by (simp add: keptFrom_def)

lemma nth_filter_Cons:
  "map (nth (q # qs)) (filter P [0..<length (q # qs)]) =
     (if P 0 then [q] else []) @ map (nth qs) (filter (\<lambda>i. P (Suc i)) [0..<length qs])"
  by (simp add: upt_0_Suc filter_map comp_def del: upt_Suc)

lemma list_ex_map_fun: "list_ex R (map f xs) = list_ex (\<lambda>x. R (f x)) xs"
  by (induction xs) simp_all

lemma list_ex_upt_Suc: "list_ex R [0..<Suc i] = (R 0 \<or> list_ex (\<lambda>j. R (Suc j)) [0..<i])"
  by (simp only: upt_0_Suc list_ex_Cons_iff list_ex_map_fun)

lemma keptFrom_Cons:
  "keptFrom seen (q # qs) =
     (if list_ex (\<lambda>x. sameValueZero x (labelKey q)) seen then keptFrom seen qs
      else q # keptFrom (seen @ [labelKey q]) qs)"
proof -
  let ?P = "\<lambda>i. \<not> list_ex (\<lambda>x. sameValueZero x (labelKey ((q # qs) ! i))) seen
            \<and> \<not> list_ex (\<lambda>j. sameValueZero (labelKey ((q # qs) ! j)) (labelKey ((q # qs) ! i))) [0..<i]"
  have split: "keptFrom seen (q # qs) =
      (if ?P 0 then [q] else []) @ map (nth qs) (filter (\<lambda>i. ?P (Suc i)) [0..<length qs])"
    unfolding keptFrom_def by (rule nth_filter_Cons)
  have P0: "?P 0 = (\<not> list_ex (\<lambda>x. sameValueZero x (labelKey q)) seen)"
    by simp
  have PS: "?P (Suc i) =
      (\<not> list_ex (\<lambda>x. sameValueZero x (labelKey (qs ! i))) seen
       \<and> \<not> sameValueZero (labelKey q) (labelKey (qs ! i))
       \<and> \<not> list_ex (\<lambda>j. sameValueZero (labelKey (qs ! j)) (labelKey (qs ! i))) [0..<i])" for i
    by (simp add: list_ex_upt_Suc del: upt_Suc)
  show ?thesis
  proof (cases "list_ex (\<lambda>x. sameValueZero x (labelKey q)) seen")
    case True
    have "?P (Suc i) =
      (\<not> list_ex (\<lambda>x. sameValueZero x (labelKey (qs ! i))) seen
       \<and> \<not> list_ex (\<lambda>j. sameValueZero (labelKey (qs ! j)) (labelKey (qs ! i))) [0..<i])" for i
      unfolding PS using True sameValueZero_eq [of "labelKey q" "labelKey (qs ! i)"] by auto
    then have "filter (\<lambda>i. ?P (Suc i)) [0..<length qs] =
        filter (\<lambda>i. \<not> list_ex (\<lambda>x. sameValueZero x (labelKey (qs ! i))) seen
       \<and> \<not> list_ex (\<lambda>j. sameValueZero (labelKey (qs ! j)) (labelKey (qs ! i))) [0..<i]) [0..<length qs]"
      by simp
    with split P0 True show ?thesis by (simp add: keptFrom_def)
  next
    case False
    have "?P (Suc i) =
      (\<not> list_ex (\<lambda>x. sameValueZero x (labelKey (qs ! i))) (seen @ [labelKey q])
       \<and> \<not> list_ex (\<lambda>j. sameValueZero (labelKey (qs ! j)) (labelKey (qs ! i))) [0..<i])" for i
      unfolding PS by auto
    then have "filter (\<lambda>i. ?P (Suc i)) [0..<length qs] =
        filter (\<lambda>i. \<not> list_ex (\<lambda>x. sameValueZero x (labelKey (qs ! i))) (seen @ [labelKey q])
       \<and> \<not> list_ex (\<lambda>j. sameValueZero (labelKey (qs ! j)) (labelKey (qs ! i))) [0..<i]) [0..<length qs]"
      by simp
    with split P0 False show ?thesis by (simp add: keptFrom_def)
  qed
qed

lemma dedupLoop_keptFrom:
  "list_all (\<lambda>q. q \<noteq> JNull \<and> q \<noteq> JUndefined) qs \<Longrightarrow>
     dedupLoop qs seen uniq = Inr (uniq @ keptFrom seen qs)"
proof (induction qs arbitrary: seen uniq)
  case Nil
  show ?case by (simp add: keptFrom_Nil)
next
  case (Cons q qs)
  from Cons.prems have q: "q \<noteq> JNull" "q \<noteq> JUndefined"
    and rest: "list_all (\<lambda>q. q \<noteq> JNull \<and> q \<noteq> JUndefined) qs" by simp_all
  from q obtain l where l: "getProp q ''question_label'' = Inr l"
    by (cases q) simp_all
  then have k: "labelKey q = orElse l (JStr '''')" by (simp add: labelKey_def)
  show ?case
    using l k Cons.IH [OF rest] by (simp add: keptFrom_Cons Let_def)
qed

lemma dedupLoop_throws:
  "dedupLoop qs seen uniq = Inl e \<Longrightarrow> \<not> list_all (\<lambda>q. q \<noteq> JNull \<and> q \<noteq> JUndefined) qs"
  using dedupLoop_keptFrom [of qs seen uniq] by auto

lemma dedupLoop_null:
  "\<not> list_all (\<lambda>q. q \<noteq> JNull \<and> q \<noteq> JUndefined) qs \<Longrightarrow> dedupLoop qs seen uniq = Inl TypeError"
proof (induction qs arbitrary: seen uniq)
  case Nil
  then show ?case by simp
next
  case (Cons q qs)
  show ?case
  proof (cases "q \<noteq> JNull \<and> q \<noteq> JUndefined")
    case False
    then show ?thesis by auto
  next
    case True
    then obtain l where l: "getProp q ''question_label'' = Inr l"
      by (cases q) simp_all
    from True Cons.prems have "\<not> list_all (\<lambda>q. q \<noteq> JNull \<and> q \<noteq> JUndefined) qs" by simp
    from Cons.IH [OF this] l show ?thesis by (simp add: Let_def)
  qed
qed

lemma extractWith_dedup:
  assumes "scanLoop handleBlock rawContent 0 [] = allQuestions"
    and "allQuestions \<noteq> []"
    and "list_all (\<lambda>q. q \<noteq> JNull \<and> q \<noteq> JUndefined) allQuestions"
  shows "extractWith handleBlock re rawContent =
     \<lparr> out_questions = firstSeen allQuestions, out_raw_content = None, out_parse_error = None \<rparr>"
  using assms dedupLoop_keptFrom [of allQuestions "[]" "[]"]
  by (simp add: extractWith_def firstSeen_def)

text \<open>
  Example: two blocks; the second repeats the label \<open>"5"\<close> of the first and adds the
  number \<open>5\<close>. \<open>quoted s\<close> is \<open>s\<close> between double quotes. \<open>dup_parse\<close> agrees with
  \<open>JSON.parse\<close> on the two blocks of the text, and no question pattern of the fallback is
  consulted.
\<close>

definition quoted :: "string \<Rightarrow> string" where
  "quoted s = CHR 0x22 # s @ [CHR 0x22]"

definition dup_block1 :: string where
  "dup_block1 = ''{'' @ quoted ''questions'' @ '': [{'' @ quoted ''question_label'' @ '': ''
     @ quoted ''5'' @ '', '' @ quoted ''text'' @ '': '' @ quoted ''a'' @ ''}]}''"

definition dup_block2 :: string where
  "dup_block2 = ''{'' @ quoted ''questions'' @ '': [{'' @ quoted ''question_label'' @ '': ''
     @ quoted ''5'' @ '', '' @ quoted ''text'' @ '': '' @ quoted ''b'' @ ''}, {''
     @ quoted ''question_label'' @ '': 5}]}''"

definition dup_text :: string where
  "dup_text = ''Part one '' @ dup_block1 @ '' part two '' @ dup_block2 @ '' end''"

definition dup_parse :: "string \<Rightarrow> jsval option" where
  "dup_parse s =
     (if s = dup_block1 then
        Some (JObj [(''questions'', JArr [
          JObj [(''question_label'', JStr ''5''), (''text'', JStr ''a'')]])])
      else if s = dup_block2 then
        Some (JObj [(''questions'', JArr [
          JObj [(''question_label'', JStr ''5''), (''text'', JStr ''b'')],
          JObj [(''question_label'', JNum 5)]])])
      else None)"

definition noMatches :: regex_engine where
  "noMatches = \<lparr> questionPattern = (\<lambda>p s. []), lowercaseChoice = (\<lambda>s. []),
                 uppercaseChoice = (\<lambda>s. []), splitAtChoice = (\<lambda>s. s) \<rparr>"

text \<open>
  C5 (as amended). When the loop has accumulated questions, none of them null, the output
  of either copy of the extractor is \<open>firstSeen\<close> of the accumulated array: a question
  survives exactly when no earlier accumulated question has the same key, the survivors
  stay in their order, and nothing is raised. The key is \<open>question_label || ''\<close> compared
  as a \<open>Set\<close> compares, without coercion to a string: the number \<open>5\<close> and the string \<open>"5"\<close>
  are different keys, and all falsy labels share the key \<open>''\<close>.
\<close>

theorem parseQuestionsFromContent_deduplicates:
  assumes "allQuestions \<noteq> []"
    and "list_all (\<lambda>q. q \<noteq> JNull \<and> q \<noteq> JUndefined) allQuestions"
  shows "(scanLoop (blockQuestions jsonParse) rawContent 0 [] = allQuestions \<longrightarrow>
            parseQuestionsFromContent jsonParse re rawContent =
              \<lparr> out_questions = firstSeen allQuestions, out_raw_content = None,
                out_parse_error = None \<rparr>)
       \<and> (scanLoop (blockQuestionsNoRetry jsonParse) rawContent 0 [] = allQuestions \<longrightarrow>
            parseQuestionsFromContentNoRetry jsonParse re rawContent =
              \<lparr> out_questions = firstSeen allQuestions, out_raw_content = None,
                out_parse_error = None \<rparr>)"
  using assms extractWith_dedup
  by (simp add: parseQuestionsFromContent_def parseQuestionsFromContentNoRetry_def)

theorem parseQuestionsFromContent_deduplicates_witness:
  "scanLoop (blockQuestions dup_parse) dup_text 0 [] =
     [JObj [(''question_label'', JStr ''5''), (''text'', JStr ''a'')],
      JObj [(''question_label'', JStr ''5''), (''text'', JStr ''b'')],
      JObj [(''question_label'', JNum 5)]]
   \<and> firstSeen [JObj [(''question_label'', JStr ''5''), (''text'', JStr ''a'')],
      JObj [(''question_label'', JStr ''5''), (''text'', JStr ''b'')],
      JObj [(''question_label'', JNum 5)]] =
     [JObj [(''question_label'', JStr ''5''), (''text'', JStr ''a'')],
      JObj [(''question_label'', JNum 5)]]
   \<and> parseQuestionsFromContent dup_parse noMatches dup_text =
     \<lparr> out_questions = [JObj [(''question_label'', JStr ''5''), (''text'', JStr ''a'')],
                        JObj [(''question_label'', JNum 5)]],
       out_raw_content = None, out_parse_error = None \<rparr>"
proof -
  let ?acc = "[JObj [(''question_label'', JStr ''5''), (''text'', JStr ''a'')],
      JObj [(''question_label'', JStr ''5''), (''text'', JStr ''b'')],
      JObj [(''question_label'', JNum 5)]]"
  have acc: "scanLoop (blockQuestions dup_parse) dup_text 0 [] = ?acc"
    by code_simp
  have fs: "firstSeen ?acc =
     [JObj [(''question_label'', JStr ''5''), (''text'', JStr ''a'')],
      JObj [(''question_label'', JNum 5)]]"
    by code_simp
  have ne: "?acc \<noteq> []" by simp
  have ok: "list_all (\<lambda>q. q \<noteq> JNull \<and> q \<noteq> JUndefined) ?acc" by simp
  from parseQuestionsFromContent_deduplicates [OF ne ok, of dup_parse dup_text noMatches] acc fs
  show ?thesis by simp
qed

text \<open>
  C5 as stated fails: the labels \<open>"5"\<close> and \<open>5\<close> are equal once coerced to strings, and
  both questions are in the output.
\<close>

theorem parseQuestionsFromContent_coercion_counterexample:
  "parseQuestionsFromContent dup_parse noMatches dup_text =
     \<lparr> out_questions = [JObj [(''question_label'', JStr ''5''), (''text'', JStr ''a'')],
                        JObj [(''question_label'', JNum 5)]],
       out_raw_content = None, out_parse_error = None \<rparr>
   \<and> js_String (JStr ''5'') = js_String (JNum 5)"
  by code_simp

subsection \<open>Resilient JSON-block extractor: malformed blocks\<close>

text \<open>
  Example: one block whose text field holds the LaTeX command \<open>\wedge\<close> with a single
  backslash. \<open>JSON.parse\<close> rejects the block as it stands (\<open>\w\<close> is no escape) and accepts
  the repaired one, in which the backslash is doubled; \<open>latex_parse\<close> agrees with it on
  both. No question pattern of the fallback matches this text, which starts with a brace
  and has no line break.
\<close>

definition latex_block :: string where
  "latex_block = ''{'' @ quoted ''questions'' @ '': [{'' @ quoted ''question_label'' @ '': ''
     @ quoted ''1'' @ '', '' @ quoted ''text'' @ '': '' @ quoted (CHR 0x5C # ''wedge'') @ ''}]}''"

definition latex_repaired :: string where
  "latex_repaired = ''{'' @ quoted ''questions'' @ '': [{'' @ quoted ''question_label'' @ '': ''
     @ quoted ''1'' @ '', '' @ quoted ''text'' @ '': '' @ quoted (CHR 0x5C # CHR 0x5C # ''wedge'') @ ''}]}''"

definition latex_parse :: "string \<Rightarrow> jsval option" where
  "latex_parse s =
     (if s = latex_repaired then
        Some (JObj [(''questions'', JArr [
          JObj [(''question_label'', JStr ''1''), (''text'', JStr (CHR 0x5C # ''wedge''))]])])
      else None)"

lemma blockQuestions_first:
  "attempt jsonParse jsonStr = Some qs \<Longrightarrow> blockQuestions jsonParse jsonStr = qs"
  by (simp add: blockQuestions_def)

lemma blockQuestions_retry:
  "attempt jsonParse jsonStr = None \<Longrightarrow>
     blockQuestions jsonParse jsonStr =
       (case attempt jsonParse (fixInvalidEscapeSequences jsonStr) of Some qs \<Rightarrow> qs | None \<Rightarrow> [])"
  by (simp add: blockQuestions_def)

text \<open>
  The copy with the repairer. A block whose first attempt succeeds contributes its
  questions; one whose first attempt fails is attempted once more, on the repaired text,
  and contributes the questions of that attempt or, if it fails too, nothing. Either way
  the pass ends with \<open>searchStart\<close> at the end of the block; a candidate without closing
  brace moves it to the candidate's start plus one. The accumulated array is the
  concatenation of what the located blocks contribute, so a block that contributes
  nothing takes nothing away from the others.
\<close>

lemma parseQuestionsFromContent_retries:
  "(attempt jsonParse jsonStr = Some qs \<longrightarrow> blockQuestions jsonParse jsonStr = qs)
   \<and> (attempt jsonParse jsonStr = None
        \<and> attempt jsonParse (fixInvalidEscapeSequences jsonStr) = Some qs
        \<longrightarrow> blockQuestions jsonParse jsonStr = qs)
   \<and> (attempt jsonParse jsonStr = None
        \<and> attempt jsonParse (fixInvalidEscapeSequences jsonStr) = None
        \<longrightarrow> blockQuestions jsonParse jsonStr = [])
   \<and> (findCandidate rawContent searchStart = Some jsonStart
        \<and> findClosing rawContent jsonStart = Some jsonEnd
        \<longrightarrow> scanStep (blockQuestions jsonParse) rawContent searchStart allQuestions =
              Some (jsonEnd, allQuestions
                      @ blockQuestions jsonParse (substring rawContent jsonStart jsonEnd)))
   \<and> (findCandidate rawContent searchStart = Some jsonStart
        \<and> findClosing rawContent jsonStart = None
        \<longrightarrow> scanStep (blockQuestions jsonParse) rawContent searchStart allQuestions =
              Some (jsonStart + 1, allQuestions))
   \<and> scanLoop (blockQuestions jsonParse) rawContent 0 [] =
        concat (map (blockQuestions jsonParse) (jsonBlocks rawContent 0))"
  by (simp add: blockQuestions_first blockQuestions_retry scanStep_def scanLoop_blocks)

text \<open>
  C6 on the copy without the repairer: the block of \<open>latex_block\<close> is located and fails to
  parse; this copy does not retry, accumulates nothing and returns the (empty) result of
  the Markdown fallback, where the copy with the repairer returns the question.
\<close>

theorem parseQuestionsFromContentNoRetry_drops_block:
  "jsonBlocks latex_block 0 = [latex_block]
   \<and> latex_parse latex_block = None
   \<and> fixInvalidEscapeSequences latex_block = latex_repaired
   \<and> parseQuestionsFromContentNoRetry latex_parse noMatches latex_block =
       \<lparr> out_questions = [], out_raw_content = None, out_parse_error = None \<rparr>
   \<and> parseQuestionsFromContent latex_parse noMatches latex_block =
       \<lparr> out_questions =
           [JObj [(''question_label'', JStr ''1''), (''text'', JStr (CHR 0x5C # ''wedge''))]],
         out_raw_content = None, out_parse_error = None \<rparr>"
  by code_simp

subsection \<open>Resilient JSON-block extractor: the Markdown fallback\<close>

lemma markdownFallback_no_match:
  "\<forall>p < 3. questionPattern re p rawContent = [] \<Longrightarrow> markdownFallback re rawContent = []"
  by (simp add: markdownFallback_def List.map_filter_def)

lemma extractWith_cases:
  "extractWith handleBlock re rawContent =
     (if scanLoop handleBlock rawContent 0 [] = [] then
        \<lparr> out_questions = markdownFallback re rawContent,
          out_raw_content = None, out_parse_error = None \<rparr>
      else if list_all (\<lambda>q. q \<noteq> JNull \<and> q \<noteq> JUndefined) (scanLoop handleBlock rawContent 0 [])
      then \<lparr> out_questions = firstSeen (scanLoop handleBlock rawContent 0 []),
             out_raw_content = None, out_parse_error = None \<rparr>
      else \<lparr> out_questions = [], out_raw_content = Some rawContent,
             out_parse_error = Some TypeError \<rparr>)"
proof (cases "scanLoop handleBlock rawContent 0 [] = []")
  case True
  then show ?thesis by (simp add: extractWith_def)
next
  case ne: False
  show ?thesis
  proof (cases "list_all (\<lambda>q. q \<noteq> JNull \<and> q \<noteq> JUndefined) (scanLoop handleBlock rawContent 0 [])")
    case True
    with ne extractWith_dedup [OF refl ne True] show ?thesis by simp
  next
    case False
    from dedupLoop_null [OF False] ne False show ?thesis by (simp add: extractWith_def)
  qed
qed

text \<open>
  Example: a numbered question followed by a block with an empty questions array.
  \<open>fallback_parse\<close> agrees with \<open>JSON.parse\<close> on that block. \<open>fallback_engine\<close> gives the
  matches of the patterns on this text: the first question pattern matches once, from
  the start of the text, with the label \<open>1\<close> and the rest of the text as its block (the
  lazy group runs to the end, where \<open>$\<close> holds); in that block neither choice pattern
  matches.
\<close>

definition fallback_block :: string where
  "fallback_block = ''{'' @ quoted ''questions'' @ '': []}''"

definition fallback_text :: string where
  "fallback_text = ''1. What is 2+2? '' @ fallback_block"

definition fallback_parse :: "string \<Rightarrow> jsval option" where
  "fallback_parse s =
     (if s = fallback_block then Some (JObj [(''questions'', JArr [])]) else None)"

definition fallback_engine :: regex_engine where
  "fallback_engine =
     \<lparr> questionPattern =
         (\<lambda>p s. if p = 0 \<and> s = fallback_text then [(s, ''1'', drop 3 s)] else []),
       lowercaseChoice = (\<lambda>s. []),
       uppercaseChoice = (\<lambda>s. []),
       splitAtChoice = (\<lambda>s. s) \<rparr>"

text \<open>
  C7 (as amended). The extractor returns the result of the Markdown fallback exactly when
  the loop has accumulated no question: no block was located, or every located block
  failed to parse, had no questions array or had an empty one. Otherwise it returns the
  accumulated questions deduplicated (or, when one of them is null, the object of the
  outer \<open>catch\<close>). The accumulated array is the concatenation of the contributions of the
  located blocks. When none of the three question patterns matches, the fallback's
  result is the empty list, returned as \<open>{questions: []}\<close>.
\<close>

theorem parseQuestionsFromContent_fallback:
  "(scanLoop (blockQuestions jsonParse) rawContent 0 [] = [] \<longrightarrow>
      parseQuestionsFromContent jsonParse re rawContent =
        \<lparr> out_questions = markdownFallback re rawContent,
          out_raw_content = None, out_parse_error = None \<rparr>)
   \<and> (scanLoop (blockQuestions jsonParse) rawContent 0 [] \<noteq> [] \<longrightarrow>
      parseQuestionsFromContent jsonParse re rawContent =
        (if list_all (\<lambda>q. q \<noteq> JNull \<and> q \<noteq> JUndefined)
              (scanLoop (blockQuestions jsonParse) rawContent 0 [])
         then \<lparr> out_questions = firstSeen (scanLoop (blockQuestions jsonParse) rawContent 0 []),
                out_raw_content = None, out_parse_error = None \<rparr>
         else \<lparr> out_questions = [], out_raw_content = Some rawContent,
                out_parse_error = Some TypeError \<rparr>))
   \<and> scanLoop (blockQuestions jsonParse) rawContent 0 [] =
        concat (map (blockQuestions jsonParse) (jsonBlocks rawContent 0))
   \<and> ((\<forall>p < 3. questionPattern re p rawContent = []) \<longrightarrow> markdownFallback re rawContent = [])"
  using extractWith_cases [of "blockQuestions jsonParse" re rawContent]
    scanLoop_blocks [of "blockQuestions jsonParse" rawContent 0 "[]"]
    markdownFallback_no_match [of re rawContent]
  by (simp add: parseQuestionsFromContent_def)

theorem parseQuestionsFromContent_fallback_witness:
  "jsonBlocks ''No questions in this text.'' 0 = []
   \<and> scanLoop (blockQuestions rejectAll) ''No questions in this text.'' 0 [] = []
   \<and> markdownFallback noMatches ''No questions in this text.'' = []
   \<and> parseQuestionsFromContent rejectAll noMatches ''No questions in this text.'' =
       \<lparr> out_questions = [], out_raw_content = None, out_parse_error = None \<rparr>"
proof -
  have b: "jsonBlocks ''No questions in this text.'' 0 = []" by code_simp
  have s: "scanLoop (blockQuestions rejectAll) ''No questions in this text.'' 0 [] = []"
    by code_simp
  have p: "\<forall>p < 3. questionPattern noMatches p ''No questions in this text.'' = []"
    by (simp add: noMatches_def)
  from parseQuestionsFromContent_fallback
    [of rejectAll "''No questions in this text.''" noMatches] b s p
  show ?thesis by simp
qed

text \<open>
  C7 as stated fails: in \<open>fallback_text\<close> a JSON block is found and parses, with an empty
  questions array; the extractor then returns the question the fallback finds, not the
  empty merged result of the JSON blocks.
\<close>

theorem parseQuestionsFromContent_fallback_counterexample:
  "jsonBlocks fallback_text 0 = [fallback_block]
   \<and> fallback_parse fallback_block = Some (JObj [(''questions'', JArr [])])
   \<and> concat (map (blockQuestions fallback_parse) (jsonBlocks fallback_text 0)) = []
   \<and> parseQuestionsFromContent fallback_parse fallback_engine fallback_text =
       \<lparr> out_questions =
           [JObj [(''question_label'', JStr ''1''),
                  (''text'', JStr (''What is 2+2? '' @ fallback_block)),
                  (''choices'', JArr [])]],
         out_raw_content = None, out_parse_error = None \<rparr>
   \<and> markdownFallback fallback_engine fallback_text =
         [JObj [(''question_label'', JStr ''1''),
                (''text'', JStr (''What is 2+2? '' @ fallback_block)),
                (''choices'', JArr [])]]"
  by code_simp

subsection \<open>Reverse sync engine: rows, batches and counters\<close>

text \<open>
  What the loop does with one fetched row: it skips it (no \<open>ref_id\<close>, or a falsy
  transform), counts it as an error (a throw inside the \<open>try\<close>), puts its document into
  the batch, or ends the run (a throw inside the \<open>try\<close> followed by a throw of the log
  line of the \<open>catch\<close>). \<open>sentDocs\<close> are the documents of the rows of the third kind, in
  fetch order, \<open>firstAbort\<close> is the error of the first row of the fourth kind, and
  \<open>chunks n\<close> cuts a list into consecutive pieces of length \<open>n\<close>, the last one possibly
  shorter.
\<close>

datatype row_outcome = Skipped | Threw | Sent mongo_doc | Aborted js_error

definition caughtOutcome :: "jsval \<Rightarrow> row_outcome" where
  "caughtOutcome item = (case itemLabel item of Inl e \<Rightarrow> Aborted e | Inr label \<Rightarrow> Threw)"

definition classify ::
  "(jsval \<Rightarrow> sync_context \<Rightarrow> js_error + mongo_doc option) \<Rightarrow> sync_context \<Rightarrow> jsval \<Rightarrow> row_outcome" where
  "classify transformItem context item =
     (case getProp item ''ref_id'' of
        Inl e \<Rightarrow> caughtOutcome item
      | Inr ref_id \<Rightarrow>
          if \<not> truthy ref_id then Skipped
          else (case transformItem item context of
                  Inl e \<Rightarrow> caughtOutcome item
                | Inr None \<Rightarrow> Skipped
                | Inr (Some d) \<Rightarrow> Sent d))"

fun sentDocs :: "row_outcome list \<Rightarrow> mongo_doc list" where
  "sentDocs [] = []"
| "sentDocs (Sent d # os) = d # sentDocs os"
| "sentDocs (x # os) = sentDocs os"

fun firstAbort :: "row_outcome list \<Rightarrow> js_error option" where
  "firstAbort [] = None"
| "firstAbort (Aborted e # os) = Some e"
| "firstAbort (x # os) = firstAbort os"

function chunks :: "nat \<Rightarrow> 'a list \<Rightarrow> 'a list list" where
  "chunks n xs = (if n = 0 \<or> xs = [] then [] else take n xs # chunks n (drop n xs))"
  by pat_completeness auto
termination
  by (relation "measure (\<lambda>(n, xs). length xs)") auto

declare chunks.simps [simp del]

text \<open>
  \<open>additive batchUpsert\<close>: the method adds to the counters and does not read them, which
  is how both implementations use \<open>stats\<close>.
\<close>

definition bump :: "nat \<Rightarrow> nat \<Rightarrow> sync_stats \<Rightarrow> sync_stats" where
  "bump k e stats = stats \<lparr> skipped := skipped stats + k, errors := errors stats + e \<rparr>"

definition additive :: "(mongo_doc list \<Rightarrow> sync_stats \<times> 'env \<Rightarrow> sync_stats \<times> 'env) \<Rightarrow> bool" where
  "additive batchUpsert =
     (\<forall>docs stats env k e.
        batchUpsert docs (bump k e stats, env) =
          (case batchUpsert docs (stats, env) of (stats', env') \<Rightarrow> (bump k e stats', env')))"

lemma bump_zero [simp]: "bump 0 0 stats = stats"
  by (simp add: bump_def)

lemma bump_bump [simp]: "bump k e (bump k' e' stats) = bump (k + k') (e + e') stats"
  by (simp add: bump_def)

lemma chunks_Nil [simp]: "chunks n [] = []"
  by (simp add: chunks.simps)

lemma chunks_short: "xs \<noteq> [] \<Longrightarrow> length xs \<le> n \<Longrightarrow> chunks n xs = [xs]"
proof -
  assume ne: "xs \<noteq> []" and le: "length xs \<le> n"
  from ne have "0 < length xs" by simp
  with le have "0 < n" by arith
  with ne le show ?thesis by (subst chunks.simps) simp
qed

lemma chunks_full: "0 < n \<Longrightarrow> length xs = n \<Longrightarrow> chunks n (xs @ ys) = xs # chunks n ys"
  by (subst chunks.simps) auto



lemma additive_foldl:
  assumes "additive batchUpsert"
  shows "foldl (\<lambda>s b. batchUpsert b s) (bump k e stats, env) bs =
     (case foldl (\<lambda>s b. batchUpsert b s) (stats, env) bs of (stats', env') \<Rightarrow> (bump k e stats', env'))"
proof (induction bs arbitrary: stats env)
  case Nil
  show ?case by simp
next
  case (Cons b bs)
  obtain stats1 env1 where s1: "batchUpsert b (stats, env) = (stats1, env1)"
    by (cases "batchUpsert b (stats, env)")
  with assms have "batchUpsert b (bump k e stats, env) = (bump k e stats1, env1)"
    by (simp add: additive_def)
  with s1 Cons.IH [of stats1 env1] show ?case by simp
qed

text \<open>The loop, from a state whose batch is not yet full, in terms of the batches.\<close>

definition finishBatch ::
  "(mongo_doc list \<Rightarrow> sync_stats \<times> 'env \<Rightarrow> sync_stats \<times> 'env) \<Rightarrow>
   mongo_doc list \<times> sync_stats \<times> 'env \<Rightarrow> sync_stats \<times> 'env" where
  "finishBatch batchUpsert state =
     (case state of (batch, stats', env') \<Rightarrow>
        if batch \<noteq> [] then batchUpsert batch (stats', env') else (stats', env'))"

lemma syncItem_outcome:
  "syncItem batchUpsert transformItem context (batch, stats, env) item =
     (case classify transformItem context item of
        Skipped \<Rightarrow>
          if length batch \<ge> BATCH_SIZE \<and> (\<exists>r. getProp item ''ref_id'' = Inr r \<and> truthy r)
          then (case batchUpsert batch (bump 1 0 stats, env) of
                  (stats2, env2) \<Rightarrow> Inr ([], stats2, env2))
          else Inr (batch, bump 1 0 stats, env)
      | Threw \<Rightarrow> Inr (batch, bump 0 1 stats, env)
      | Sent d \<Rightarrow>
          if length (batch @ [d]) \<ge> BATCH_SIZE
          then (case batchUpsert (batch @ [d]) (stats, env) of
                  (stats2, env2) \<Rightarrow> Inr ([], stats2, env2))
          else Inr (batch @ [d], stats, env)
      | Aborted e \<Rightarrow> Inl e)"
  by (auto simp: syncItem_def classify_def caughtOutcome_def bump_def Let_def
      split: sum.splits option.splits)

lemma foldE_syncItem:
  assumes add: "additive batchUpsert"
    and small: "length batch < BATCH_SIZE"
  shows "foldE (syncItem batchUpsert transformItem context) (batch, stats, env) rows =
     (case firstAbort (map (classify transformItem context) rows) of
        Some e \<Rightarrow> Inl e
      | None \<Rightarrow>
          Inr (foldl (\<lambda>s item. projr (syncItem batchUpsert transformItem context s item))
                 (batch, stats, env) rows))"
  using small
proof (induction rows arbitrary: batch stats env)
  case Nil
  show ?case by simp
next
  case (Cons item rows)
  show ?case
  proof (cases "classify transformItem context item")
    case Skipped
    with Cons.prems have step: "syncItem batchUpsert transformItem context (batch, stats, env) item =
        Inr (batch, bump 1 0 stats, env)"
      by (simp add: syncItem_outcome)
    from Cons.IH [OF Cons.prems, of "bump 1 0 stats" env] step Skipped show ?thesis by (simp split: option.splits)
  next
    case Threw
    have step: "syncItem batchUpsert transformItem context (batch, stats, env) item =
        Inr (batch, bump 0 1 stats, env)"
      using Threw by (simp add: syncItem_outcome)
    from Cons.IH [OF Cons.prems, of "bump 0 1 stats" env] step Threw show ?thesis by (simp split: option.splits)
  next
    case (Aborted e)
    then show ?thesis by (simp add: syncItem_outcome)
  next
    case (Sent d)
    show ?thesis
    proof (cases "length (batch @ [d]) \<ge> BATCH_SIZE")
      case False
      then have small': "length (batch @ [d]) < BATCH_SIZE" by simp
      have step: "syncItem batchUpsert transformItem context (batch, stats, env) item =
          Inr (batch @ [d], stats, env)"
        using Sent False by (simp add: syncItem_outcome)
      from Cons.IH [OF small', of stats env] step Sent show ?thesis by (simp split: option.splits)
    next
      case True
      obtain stats2 env2 where up: "batchUpsert (batch @ [d]) (stats, env) = (stats2, env2)"
        by (cases "batchUpsert (batch @ [d]) (stats, env)")
      have step: "syncItem batchUpsert transformItem context (batch, stats, env) item =
          Inr ([], stats2, env2)"
        using Sent True up by (simp add: syncItem_outcome)
      have e: "length ([] :: mongo_doc list) < BATCH_SIZE" by (simp add: BATCH_SIZE_def)
      from Cons.IH [OF e, of stats2 env2] step Sent show ?thesis by (simp split: option.splits)
    qed
  qed
qed

lemma foldl_syncItem:
  assumes add: "additive batchUpsert"
    and small: "length batch < BATCH_SIZE"
    and run: "firstAbort (map (classify transformItem context) rows) = None"
  shows "finishBatch batchUpsert
           (foldl (\<lambda>s item. projr (syncItem batchUpsert transformItem context s item))
              (batch, stats, env) rows) =
     (case foldl (\<lambda>s b. batchUpsert b s) (stats, env)
             (chunks BATCH_SIZE (batch @ sentDocs (map (classify transformItem context) rows))) of
        (stats', env') \<Rightarrow>
          (bump (length (filter (\<lambda>item. classify transformItem context item = Skipped) rows))
                (length (filter (\<lambda>item. classify transformItem context item = Threw) rows))
                stats', env'))"
  using small run
proof (induction rows arbitrary: batch stats env)
  case Nil
  show ?case
  proof (cases "batch = []")
    case True
    then show ?thesis by (simp add: finishBatch_def)
  next
    case False
    with Nil.prems have "chunks BATCH_SIZE batch = [batch]"
      by (simp add: chunks_short)
    with False show ?thesis
      by (simp add: finishBatch_def split: prod.splits)
  qed
next
  case (Cons item rows)
  let ?cl = "classify transformItem context"
  let ?F = "\<lambda>s b. batchUpsert b s"
  show ?case
  proof (cases "?cl item")
    case Skipped
    with Cons.prems have step: "syncItem batchUpsert transformItem context (batch, stats, env) item =
        Inr (batch, bump 1 0 stats, env)"
      by (simp add: syncItem_outcome)
    from Cons.prems Skipped have rest: "firstAbort (map ?cl rows) = None" by simp
    from Cons.IH [OF Cons.prems(1) rest, of "bump 1 0 stats" env] step Skipped
      additive_foldl [OF add, of 1 0 stats env]
    show ?thesis
      by (simp split: prod.splits)
  next
    case Threw
    have step: "syncItem batchUpsert transformItem context (batch, stats, env) item =
        Inr (batch, bump 0 1 stats, env)"
      using Threw by (simp add: syncItem_outcome)
    from Cons.prems Threw have rest: "firstAbort (map ?cl rows) = None" by simp
    from Cons.IH [OF Cons.prems(1) rest, of "bump 0 1 stats" env] step Threw
      additive_foldl [OF add, of 0 1 stats env]
    show ?thesis
      by (simp split: prod.splits)
  next
    case (Aborted e)
    with Cons.prems show ?thesis by simp
  next
    case (Sent d)
    from Cons.prems Sent have rest: "firstAbort (map ?cl rows) = None" by simp
    show ?thesis
    proof (cases "length (batch @ [d]) \<ge> BATCH_SIZE")
      case False
      then have small': "length (batch @ [d]) < BATCH_SIZE" by simp
      have step: "syncItem batchUpsert transformItem context (batch, stats, env) item =
          Inr (batch @ [d], stats, env)"
        using Sent False by (simp add: syncItem_outcome)
      from Cons.IH [OF small' rest, of stats env] step Sent show ?thesis by simp
    next
      case True
      with Cons.prems have full: "length (batch @ [d]) = BATCH_SIZE" by simp
      have pos: "0 < BATCH_SIZE" by (simp add: BATCH_SIZE_def)
      obtain stats2 env2 where up: "batchUpsert (batch @ [d]) (stats, env) = (stats2, env2)"
        by (cases "batchUpsert (batch @ [d]) (stats, env)")
      have step: "syncItem batchUpsert transformItem context (batch, stats, env) item =
          Inr ([], stats2, env2)"
        using Sent True up by (simp add: syncItem_outcome)
      have ch: "chunks BATCH_SIZE (batch @ d # sentDocs (map ?cl rows)) =
          (batch @ [d]) # chunks BATCH_SIZE (sentDocs (map ?cl rows))"
        using chunks_full [OF pos full, of "sentDocs (map ?cl rows)"] by simp
      have e: "length ([] :: mongo_doc list) < BATCH_SIZE" using pos by simp
      from Cons.IH [OF e rest, of stats2 env2] step Sent up ch show ?thesis by simp
    qed
  qed
qed

lemma syncRows_batches:
  assumes "additive batchUpsert"
  shows "syncRows batchUpsert transformItem context rows env =
     (case firstAbort (map (classify transformItem context) rows) of
        Some e \<Rightarrow> Inl e
      | None \<Rightarrow>
          (case foldl (\<lambda>s b. batchUpsert b s) (createStats \<lparr> total_count := length rows \<rparr>, env)
                  (chunks BATCH_SIZE (sentDocs (map (classify transformItem context) rows))) of
             (stats', env') \<Rightarrow>
               Inr (bump (length (filter (\<lambda>item. classify transformItem context item = Skipped) rows))
                      (length (filter (\<lambda>item. classify transformItem context item = Threw) rows))
                      stats', env')))"
proof (cases "rows = []")
  case True
  then show ?thesis by (simp add: syncRows_def Let_def createStats_def)
next
  case False
  have e: "length ([] :: mongo_doc list) < BATCH_SIZE" by (simp add: BATCH_SIZE_def)
  let ?stats = "createStats \<lparr> total_count := length rows \<rparr>"
  from False have unfold: "syncRows batchUpsert transformItem context rows env =
      bindE (foldE (syncItem batchUpsert transformItem context) ([], ?stats, env) rows)
        (\<lambda>state. Inr (finishBatch batchUpsert state))"
    by (simp add: syncRows_def Let_def createStats_def finishBatch_def split_def)
  show ?thesis
  proof (cases "firstAbort (map (classify transformItem context) rows)")
    case (Some err)
    with unfold foldE_syncItem [OF assms e, of transformItem "context" ?stats env rows]
    show ?thesis by simp
  next
    case None
    with unfold foldE_syncItem [OF assms e, of transformItem "context" ?stats env rows]
      foldl_syncItem [OF assms e None, of ?stats env]
    show ?thesis by (simp split: prod.splits)
  qed
qed


lemma additive_lessonBatchUpsert: "additive lessonBatchUpsert"
  by (auto simp: additive_def lessonBatchUpsert_def bump_def Let_def split: prod.splits option.splits)


definition emptyCollection :: collection where
  "emptyCollection = \<lparr> documents = [], uniqueIndex = None \<rparr>"








subsection \<open>The target store: what a write leaves behind\<close>

lemma setFields_Nil [simp]: "setFields [] e = e"
  by (simp add: setFields_def)

lemma setFields_Cons [simp]: "setFields ((k, v) # fs) e = setFields fs (setField k v e)"
  by (simp add: setFields_def)

lemma setFields_append: "setFields (fs @ gs) e = setFields gs (setFields fs e)"
  by (simp add: setFields_def)

lemma map_of_setField: "map_of (setField k v e) k' = (if k' = k then Some v else map_of e k')"
  by (induction k v e rule: setField.induct) auto


lemma map_of_setFields_other: "k \<notin> fst ` set fs \<Longrightarrow> map_of (setFields fs e) k = map_of e k"
proof (induction fs arbitrary: e)
  case Nil
  show ?case by simp
next
  case (Cons f fs)
  obtain k1 v1 where f: "f = (k1, v1)" by (cases f)
  from Cons.prems f have "k \<noteq> k1" and "k \<notin> fst ` set fs" by auto
  with Cons.IH [of "setField k1 v1 e"] f show ?case by (simp add: map_of_setField)
qed

lemma map_of_setFields:
  "distinct (map fst fs) \<Longrightarrow> (k, v) \<in> set fs \<Longrightarrow> map_of (setFields fs e) k = Some v"
proof (induction fs arbitrary: e)
  case Nil
  then show ?case by simp
next
  case (Cons f fs)
  obtain k1 v1 where f: "f = (k1, v1)" by (cases f)
  show ?case
  proof (cases "(k, v) = (k1, v1)")
    case True
    with Cons.prems f have "k \<notin> fst ` set fs" by auto
    with True f show ?thesis by (simp add: map_of_setFields_other map_of_setField)
  next
    case False
    with Cons.prems f have "(k, v) \<in> set fs" and "distinct (map fst fs)" by auto
    with Cons.IH [of "setField k1 v1 e"] f show ?thesis by simp
  qed
qed


lemma fieldOrNull_setFields:
  assumes "distinct (map fst fs)" and "k \<in> fst ` set fs"
  shows "fieldOrNull (setFields fs e) k = fieldOrNull fs k"
proof -
  from assms(2) obtain v where v: "(k, v) \<in> set fs" by auto
  with assms(1) have "map_of fs k = Some v" by (rule_tac map_of_is_SomeI)
  with map_of_setFields [OF assms(1) v, of e] show ?thesis by (simp add: fieldOrNull_def)
qed

lemma fieldOrNull_setFields_other:
  "k \<notin> fst ` set fs \<Longrightarrow> fieldOrNull (setFields fs e) k = fieldOrNull e k"
  by (simp add: fieldOrNull_def map_of_setFields_other)

lemma map_fst_replaceDoc [simp]: "map fst (replaceDoc i e' ds) = map fst ds"
  by (induction i e' ds rule: replaceDoc.induct) auto

lemma set_replaceDoc: "set (replaceDoc i e' ds) \<subseteq> insert (i, e') (set ds)"
  by (induction i e' ds rule: replaceDoc.induct) auto



text \<open>
  \<open>keyed\<close>: no two documents of the collection have the same \<open>_id\<close>, which the store
  guarantees. \<open>onePerTuple\<close>: no two documents have the same values of \<open>order\<close>, \<open>chapter\<close>
  and \<open>type\<close>, a missing field counting as null.
\<close>

definition conflictKeys :: "string list" where
  "conflictKeys = [''order'', ''chapter'', ''type'']"

definition tupleOf :: "fields \<Rightarrow> bson list" where
  "tupleOf e = indexKey conflictKeys e"

definition keyed :: "collection \<Rightarrow> bool" where
  "keyed c = distinct (map fst (documents c))"

definition onePerTuple :: "collection \<Rightarrow> bool" where
  "onePerTuple c = distinct (map (\<lambda>(i, e). tupleOf e) (documents c))"

lemma matchesAll_conflictFilter:
  "matchesAll (conflictFilter d) e = (tupleOf e = tupleOf (doc_fields d))"
  by (auto simp: matchesAll_def conflictFilter_def tupleOf_def indexKey_def conflictKeys_def)

lemma distinct_tuples_replaceDoc:
  "distinct (map fst ds) \<Longrightarrow> distinct (map (\<lambda>(i, e). tupleOf e) ds) \<Longrightarrow>
   (\<And>j x. (j, x) \<in> set ds \<Longrightarrow> j \<noteq> i \<Longrightarrow> tupleOf x \<noteq> tupleOf e') \<Longrightarrow>
   distinct (map (\<lambda>(i, e). tupleOf e) (replaceDoc i e' ds))"
proof (induction i e' ds rule: replaceDoc.induct)
  case (1 i e')
  show ?case by simp
next
  case (2 i e' j e ds)
  show ?case
  proof (cases "j = i")
    case True
    have "tupleOf e' \<noteq> tupleOf x" if "(l, x) \<in> set ds" for l x
    proof -
      from that "2.prems"(1) True have "l \<noteq> i" by force
      with "2.prems"(3) [of l x] that show ?thesis by simp
    qed
    with True "2.prems"(2) show ?thesis by auto
  next
    case False
    from False "2.prems"(3) [of j e] have ne: "tupleOf e \<noteq> tupleOf e'" by simp
    from "2.prems"(1) have d1: "distinct (map fst ds)" by simp
    from "2.prems"(2) have d2: "distinct (map (\<lambda>(i, e). tupleOf e) ds)" by simp
    have d3: "tupleOf x \<noteq> tupleOf e'" if "(l, x) \<in> set ds" and "l \<noteq> i" for l x
      using "2.prems"(3) [of l x] that by simp
    have rest: "distinct (map (\<lambda>(i, e). tupleOf e) (replaceDoc i e' ds))"
      using "2.IH" [OF False d1 d2 d3] by simp
    have "tupleOf e \<noteq> tupleOf x" if "(l, x) \<in> set (replaceDoc i e' ds)" for l x
    proof -
      from that set_replaceDoc [of i e' ds] have "(l, x) = (i, e') \<or> (l, x) \<in> set ds" by auto
      with ne "2.prems"(2) show ?thesis by force
    qed
    with False rest show ?thesis by auto
  qed
qed

text \<open>
  One upsert. Either the collection has the unique index on the three fields, or no
  other document has the tuple \<open>T\<close> that the write leaves in the document \<open>i\<close>.
\<close>

lemma applyOp_update_unique:
  assumes k: "keyed c" and u: "onePerTuple c"
    and g: "uniqueIndex c = Some conflictKeys
            \<or> (\<forall>(j, e) \<in> set (documents c). tupleOf e = T \<longrightarrow> j = i)"
    and t1: "\<And>e. tupleOf (setFields upd e) = T"
    and t2: "tupleOf (setFields soi (setFields upd [])) = T"
    and step: "applyOp (c, r) (UpdateOne i upd soi) = (c', r')"
  shows "keyed c' \<and> onePerTuple c' \<and> uniqueIndex c' = uniqueIndex c
       \<and> (\<forall>(j, e) \<in> set (documents c'). (j, e) \<in> set (documents c) \<or> (j = i \<and> tupleOf e = T))"
proof (cases "map_of (documents c) i")
  case None
  let ?e = "setFields soi (setFields upd [])"
  from None have fresh: "i \<notin> fst ` set (documents c)" by (simp add: map_of_eq_None_iff)
  show ?thesis
  proof (cases "indexConflict c i ?e")
    case True
    with None step k u show ?thesis by (auto simp: upsertInto_def)
  next
    case False
    with None step have c': "c' = c \<lparr> documents := documents c @ [(i, ?e)] \<rparr>"
      by (auto simp: upsertInto_def)
    have other: "tupleOf x \<noteq> T" if "(j, x) \<in> set (documents c)" for j x
    proof -
      from that fresh have ji: "j \<noteq> i" by force
      from g show ?thesis
      proof
        assume "uniqueIndex c = Some conflictKeys"
        with False that ji t2 show ?thesis
          by (auto simp: indexConflict_def list_ex_iff tupleOf_def)
      next
        assume "\<forall>(j, e) \<in> set (documents c). tupleOf e = T \<longrightarrow> j = i"
        with that ji show ?thesis by auto
      qed
    qed
    from k fresh c' have "keyed c'" by (simp add: keyed_def)
    moreover have "onePerTuple c'"
    proof -
      have "tupleOf ?e \<notin> (\<lambda>(i, e). tupleOf e) ` set (documents c)"
      proof
        assume "tupleOf ?e \<in> (\<lambda>(i, e). tupleOf e) ` set (documents c)"
        then obtain j x where "(j, x) \<in> set (documents c)" and "tupleOf x = tupleOf ?e" by auto
        with other [of j x] t2 show False by simp
      qed
      with u c' show ?thesis by (simp add: onePerTuple_def)
    qed
    ultimately show ?thesis using c' t2 by auto
  qed
next
  case (Some e)
  let ?e = "setFields upd e"
  show ?thesis
  proof (cases "indexConflict c i ?e")
    case True
    with Some step k u show ?thesis by (auto simp: updateIn_def)
  next
    case False
    with Some step have c': "c' = c \<lparr> documents := replaceDoc i ?e (documents c) \<rparr>"
      by (auto simp: updateIn_def)
    have other: "tupleOf x \<noteq> tupleOf ?e" if "(j, x) \<in> set (documents c)" and ji: "j \<noteq> i" for j x
    proof -
      from g show ?thesis
      proof
        assume "uniqueIndex c = Some conflictKeys"
        with False that show ?thesis
          by (auto simp: indexConflict_def list_ex_iff tupleOf_def)
      next
        assume "\<forall>(j, e) \<in> set (documents c). tupleOf e = T \<longrightarrow> j = i"
        with that t1 [of e] show ?thesis by auto
      qed
    qed
    from k c' have "keyed c'" by (simp add: keyed_def)
    moreover from k u other c' have "onePerTuple c'"
      unfolding onePerTuple_def keyed_def by (simp add: distinct_tuples_replaceDoc)
    moreover have "(j, x) \<in> set (documents c) \<or> (j = i \<and> tupleOf x = T)"
      if "(j, x) \<in> set (documents c')" for j x
      using that c' set_replaceDoc [of i ?e "documents c"] t1 [of e] by auto
    ultimately show ?thesis using c' by auto
  qed
qed

subsection \<open>Reverse sync engine: one exercise for each order, chapter and type\<close>

definition lessonKeys :: "string list" where
  "lessonKeys = [''name'', ''index'', ''order'', ''common_parent_section_name'',
                 ''parent_section_name'', ''toc_output_json'', ''toc_status'', ''type'',
                 ''book'', ''chapter'']"

lemma lessonTransformItem_keys:
  "lessonTransformItem item context = Inr (Some d) \<Longrightarrow> map fst (doc_fields d) = lessonKeys"
  unfolding lessonTransformItem_def bindE_Inr by (auto simp: lessonKeys_def)

lemma fieldOrNull_setField:
  "fieldOrNull (setField k v e) k' = (if k' = k then v else fieldOrNull e k')"
  by (simp add: fieldOrNull_def map_of_setField)

lemma tupleOf_written:
  assumes keys: "map fst (doc_fields d) = lessonKeys"
  shows "tupleOf (setFields (doc_fields d @ [(''updated_at'', x)]) e) = tupleOf (doc_fields d)"
    and "tupleOf (setFields [(''created_at'', y)]
                   (setFields (doc_fields d @ [(''updated_at'', x)]) e)) = tupleOf (doc_fields d)"
proof -
  from keys have dist: "distinct (map fst (doc_fields d))" by (simp add: lessonKeys_def)
  have one: "fieldOrNull (setFields (doc_fields d) e) k = fieldOrNull (doc_fields d) k"
    if "k \<in> set conflictKeys" for k
  proof -
    from that have "k \<in> set (map fst (doc_fields d))"
      unfolding keys by (auto simp: conflictKeys_def lessonKeys_def)
    then have "k \<in> fst ` set (doc_fields d)" by simp
    with dist show ?thesis by (rule fieldOrNull_setFields)
  qed
  from one [of "''order''"] one [of "''chapter''"] one [of "''type''"]
  show "tupleOf (setFields (doc_fields d @ [(''updated_at'', x)]) e) = tupleOf (doc_fields d)"
    by (simp add: tupleOf_def indexKey_def conflictKeys_def setFields_append fieldOrNull_setField)
  from one [of "''order''"] one [of "''chapter''"] one [of "''type''"]
  show "tupleOf (setFields [(''created_at'', y)]
                   (setFields (doc_fields d @ [(''updated_at'', x)]) e)) = tupleOf (doc_fields d)"
    by (simp add: tupleOf_def indexKey_def conflictKeys_def setFields_append fieldOrNull_setField)
qed

text \<open>
  \<open>separated docs\<close>: two documents of the list with the same tuple have the same \<open>_id\<close>.
  \<open>cleared docs c\<close>: a document of the collection with the tuple of a document of the list
  has the \<open>_id\<close> of that document, which is what the delete operations leave.
\<close>

definition separated :: "mongo_doc list \<Rightarrow> bool" where
  "separated docs =
     (\<forall>d \<in> set docs. \<forall>d' \<in> set docs.
        tupleOf (doc_fields d) = tupleOf (doc_fields d') \<longrightarrow> doc_id d = doc_id d')"

definition cleared :: "mongo_doc list \<Rightarrow> collection \<Rightarrow> bool" where
  "cleared docs c =
     (\<forall>d \<in> set docs. \<forall>(j, e) \<in> set (documents c).
        tupleOf e = tupleOf (doc_fields d) \<longrightarrow> j = doc_id d)"

lemma deletes_documents:
  "foldl applyOp (c, r) (map (\<lambda>doc. DeleteMany (doc_id doc) (conflictFilter doc)) docs) = (c', r') \<Longrightarrow>
   documents c' =
     filter (\<lambda>(j, e). \<forall>d \<in> set docs. \<not> (j \<noteq> doc_id d \<and> tupleOf e = tupleOf (doc_fields d)))
       (documents c)
   \<and> uniqueIndex c' = uniqueIndex c"
proof (induction docs arbitrary: c r)
  case Nil
  then show ?case by simp
next
  case (Cons d docs)
  let ?c1 = "c \<lparr> documents :=
      filter (\<lambda>(j, e). \<not> (j \<noteq> doc_id d \<and> matchesAll (conflictFilter d) e)) (documents c) \<rparr>"
  obtain r1 where "applyOp (c, r) (DeleteMany (doc_id d) (conflictFilter d)) = (?c1, r1)"
    by (simp add: Let_def)
  with Cons.prems
  have "foldl applyOp (?c1, r1) (map (\<lambda>doc. DeleteMany (doc_id doc) (conflictFilter doc)) docs) = (c', r')"
    by simp
  from Cons.IH [OF this] show ?case
    by (auto simp: matchesAll_conflictFilter intro!: filter_cong)
qed

lemma deletes_cleared:
  assumes "foldl applyOp (c, r) (map (\<lambda>doc. DeleteMany (doc_id doc) (conflictFilter doc)) docs) = (c', r')"
    and "keyed c" and "onePerTuple c"
  shows "keyed c' \<and> onePerTuple c' \<and> cleared docs c' \<and> uniqueIndex c' = uniqueIndex c"
  using deletes_documents [OF assms(1)] assms(2,3)
  by (auto simp: keyed_def onePerTuple_def cleared_def distinct_map_filter)

lemma upserts_unique:
  assumes shape: "\<And>d. d \<in> set docs \<Longrightarrow> map fst (doc_fields d) = lessonKeys"
    and sub: "set docs \<subseteq> set all"
    and k: "keyed c" and u: "onePerTuple c"
    and g: "uniqueIndex c = Some conflictKeys \<or> (separated all \<and> cleared all c)"
    and run: "foldl applyOp (c, r)
                (map (\<lambda>doc. UpdateOne (doc_id doc)
                               (doc_fields doc @ [(''updated_at'', BDate now)])
                               [(''created_at'', BDate now)]) docs) = (c', r')"
  shows "keyed c' \<and> onePerTuple c' \<and> uniqueIndex c' = uniqueIndex c"
  using assms
proof (induction docs arbitrary: c r)
  case Nil
  then show ?case by simp
next
  case (Cons d docs)
  let ?upd = "doc_fields d @ [(''updated_at'', BDate now)]"
  let ?soi = "[(''created_at'', BDate now)]"
  let ?T = "tupleOf (doc_fields d)"
  obtain c1 r1 where step: "applyOp (c, r) (UpdateOne (doc_id d) ?upd ?soi) = (c1, r1)"
    by (cases "applyOp (c, r) (UpdateOne (doc_id d) ?upd ?soi)")
  from Cons.prems(1) have keys: "map fst (doc_fields d) = lessonKeys" by simp
  from Cons.prems(2) have din: "d \<in> set all" by simp
  have g1: "uniqueIndex c = Some conflictKeys
            \<or> (\<forall>(j, e) \<in> set (documents c). tupleOf e = ?T \<longrightarrow> j = doc_id d)"
    using Cons.prems(5) din by (auto simp: cleared_def)
  have t1: "\<And>e. tupleOf (setFields ?upd e) = ?T"
    by (rule tupleOf_written(1) [OF keys])
  have t2: "tupleOf (setFields ?soi (setFields ?upd [])) = ?T"
    by (rule tupleOf_written(2) [OF keys])
  from applyOp_update_unique [OF Cons.prems(3) Cons.prems(4) g1 t1 t2 step]
  have k1: "keyed c1" and u1: "onePerTuple c1" and idx: "uniqueIndex c1 = uniqueIndex c"
    and chg: "\<forall>(j, e) \<in> set (documents c1).
                (j, e) \<in> set (documents c) \<or> (j = doc_id d \<and> tupleOf e = ?T)"
    by blast+
  have g': "uniqueIndex c1 = Some conflictKeys \<or> (separated all \<and> cleared all c1)"
  proof (cases "uniqueIndex c = Some conflictKeys")
    case True
    with idx show ?thesis by simp
  next
    case False
    with Cons.prems(5) have sep: "separated all" and cl: "cleared all c" by simp_all
    have "j = doc_id d'" if "d' \<in> set all" and "(j, e) \<in> set (documents c1)"
      and "tupleOf e = tupleOf (doc_fields d')" for d' j e
    proof -
      from chg that(2) have "(j, e) \<in> set (documents c) \<or> (j = doc_id d \<and> tupleOf e = ?T)"
        by auto
      then show ?thesis
      proof
        assume "(j, e) \<in> set (documents c)"
        with cl that(1,3) show ?thesis by (auto simp: cleared_def)
      next
        assume new: "j = doc_id d \<and> tupleOf e = ?T"
        from sep din that(1)
        have "tupleOf (doc_fields d) = tupleOf (doc_fields d') \<longrightarrow> doc_id d = doc_id d'"
          unfolding separated_def by blast
        with new that(3) show ?thesis by simp
      qed
    qed
    then have "cleared all c1" by (auto simp: cleared_def)
    with sep show ?thesis by simp
  qed
  have shape': "\<And>d'. d' \<in> set docs \<Longrightarrow> map fst (doc_fields d') = lessonKeys"
    using Cons.prems(1) by simp
  have sub': "set docs \<subseteq> set all" using Cons.prems(2) by simp
  from Cons.prems(6) step
  have run': "foldl applyOp (c1, r1)
                (map (\<lambda>doc. UpdateOne (doc_id doc)
                               (doc_fields doc @ [(''updated_at'', BDate now)])
                               [(''created_at'', BDate now)]) docs) = (c', r')"
    by (simp del: applyOp.simps)
  from Cons.IH [OF shape' sub' k1 u1 g' run'] idx show ?case by simp
qed

lemma lessonBatchUpsert_coll:
  "docs \<noteq> [] \<Longrightarrow>
   coll (snd (lessonBatchUpsert docs (stats, env))) =
     fst (foldl applyOp
            (fst (foldl applyOp (coll env, noResult)
                    (map (\<lambda>doc. DeleteMany (doc_id doc) (conflictFilter doc)) docs)),
             noResult)
            (map (\<lambda>doc. UpdateOne (doc_id doc)
                           (doc_fields doc @ [(''updated_at'', BDate (clock env (reads env)))])
                           [(''created_at'', BDate (clock env (reads env)))]) docs))"
  by (simp add: lessonBatchUpsert_def bulkWrite_def Let_def split: prod.splits option.splits)

lemma lessonBatchUpsert_unique:
  assumes shape: "\<And>d. d \<in> set docs \<Longrightarrow> map fst (doc_fields d) = lessonKeys"
    and k: "keyed (coll env)" and u: "onePerTuple (coll env)"
    and g: "uniqueIndex (coll env) = Some conflictKeys \<or> separated docs"
    and run: "lessonBatchUpsert docs (stats, env) = (stats', env')"
  shows "keyed (coll env') \<and> onePerTuple (coll env')
       \<and> uniqueIndex (coll env') = uniqueIndex (coll env)"
proof (cases "docs = []")
  case True
  with run k u show ?thesis by (simp add: lessonBatchUpsert_def)
next
  case False
  let ?now = "clock env (reads env)"
  let ?dels = "map (\<lambda>doc. DeleteMany (doc_id doc) (conflictFilter doc)) docs"
  let ?ups = "map (\<lambda>doc. UpdateOne (doc_id doc)
                               (doc_fields doc @ [(''updated_at'', BDate ?now)])
                               [(''created_at'', BDate ?now)]) docs"
  obtain c1 r1 where d: "foldl applyOp (coll env, noResult) ?dels = (c1, r1)"
    by (cases "foldl applyOp (coll env, noResult) ?dels")
  obtain c2 r2 where p: "foldl applyOp (c1, noResult) ?ups = (c2, r2)"
    by (cases "foldl applyOp (c1, noResult) ?ups")
  from run lessonBatchUpsert_coll [OF False, of stats env] d p have env': "coll env' = c2"
    by simp
  from deletes_cleared [OF d k u]
  have k1: "keyed c1" and u1: "onePerTuple c1" and cl: "cleared docs c1"
    and idx: "uniqueIndex c1 = uniqueIndex (coll env)"
    by simp_all
  from g idx cl have g1: "uniqueIndex c1 = Some conflictKeys \<or> (separated docs \<and> cleared docs c1)"
    by auto
  have sub: "set docs \<subseteq> set docs" by simp
  from upserts_unique [OF shape sub k1 u1 g1 p] idx env' show ?thesis by simp
qed

lemma batches_unique:
  assumes shape: "\<And>b d. b \<in> set bs \<Longrightarrow> d \<in> set b \<Longrightarrow> map fst (doc_fields d) = lessonKeys"
    and k: "keyed (coll env)" and u: "onePerTuple (coll env)"
    and g: "uniqueIndex (coll env) = Some conflictKeys \<or> list_all separated bs"
    and run: "foldl (\<lambda>s b. lessonBatchUpsert b s) (stats, env) bs = (stats', env')"
  shows "keyed (coll env') \<and> onePerTuple (coll env')"
  using assms
proof (induction bs arbitrary: stats env)
  case Nil
  then show ?case by simp
next
  case (Cons b bs)
  obtain stats1 env1 where step: "lessonBatchUpsert b (stats, env) = (stats1, env1)"
    by (cases "lessonBatchUpsert b (stats, env)")
  have shape_b: "\<And>d. d \<in> set b \<Longrightarrow> map fst (doc_fields d) = lessonKeys"
    using Cons.prems(1) [of b] by simp
  from Cons.prems(4) have g_b: "uniqueIndex (coll env) = Some conflictKeys \<or> separated b"
    by auto
  from lessonBatchUpsert_unique [OF shape_b Cons.prems(2) Cons.prems(3) g_b step]
  have k1: "keyed (coll env1)" and u1: "onePerTuple (coll env1)"
    and idx: "uniqueIndex (coll env1) = uniqueIndex (coll env)"
    by simp_all
  have shape': "map fst (doc_fields d) = lessonKeys" if "b' \<in> set bs" and "d \<in> set b'" for b' d
    using Cons.prems(1) [of b' d] that by simp
  from Cons.prems(4) idx have g': "uniqueIndex (coll env1) = Some conflictKeys \<or> list_all separated bs"
    by auto
  from Cons.prems(5) step
  have run': "foldl (\<lambda>s b. lessonBatchUpsert b s) (stats1, env1) bs = (stats', env')" by simp
  from Cons.IH [OF shape' k1 u1 g' run'] show ?case .
qed

lemma sentDocs_transformed:
  "d \<in> set (sentDocs (map (classify transformItem context) rows)) \<Longrightarrow>
   \<exists>item \<in> set rows. transformItem item context = Inr (Some d)"
proof (induction rows)
  case Nil
  then show ?case by simp
next
  case (Cons item rows)
  show ?case
  proof (cases "classify transformItem context item")
    case (Sent d')
    then have "transformItem item context = Inr (Some d')"
      by (auto simp: classify_def caughtOutcome_def split: sum.splits if_splits option.splits)
    with Sent Cons show ?thesis by auto
  qed (use Cons in auto)
qed

lemma set_chunks: "b \<in> set (chunks n xs) \<Longrightarrow> set b \<subseteq> set xs"
proof (induction n xs rule: chunks.induct)
  case (1 n xs)
  show ?case
  proof (cases "n = 0 \<or> xs = []")
    case True
    with "1.prems" show ?thesis by (simp add: chunks.simps)
  next
    case False
    with "1.prems" have "b = take n xs \<or> b \<in> set (chunks n (drop n xs))"
      by (subst (asm) chunks.simps) simp
    then show ?thesis
    proof
      assume "b = take n xs"
      then show ?thesis by (auto dest: in_set_takeD)
    next
      assume "b \<in> set (chunks n (drop n xs))"
      with "1.IH" False have "set b \<subseteq> set (drop n xs)" by simp
      then show ?thesis by (auto dest: in_set_dropD)
    qed
  qed
qed

text \<open>
  Examples. Two lessons of the same chapter with the same \<open>display_order\<close> and different
  \<open>ref_id\<close>: their exercises have the same tuple. \<open>outcome\<close> keeps of a run its statistics
  and the documents of the collection, and \<open>returned\<close> says that the run did not throw.
\<close>

definition tick :: "nat \<Rightarrow> nat" where
  "tick k = 1769126400000 + k"

definition outcome ::
  "js_error + sync_stats \<times> mongo_env \<Rightarrow> js_error + sync_stats \<times> (oid \<times> fields) list" where
  "outcome r = (case r of Inl e \<Rightarrow> Inl e | Inr (stats, env) \<Rightarrow> Inr (stats, documents (coll env)))"

definition returned :: "js_error + 'a \<Rightarrow> bool" where
  "returned r = (case r of Inl e \<Rightarrow> False | Inr v \<Rightarrow> True)"

definition lesson_books :: "jsval list" where
  "lesson_books = [JObj [(''id'', JStr ''b1''), (''ref_id'', JStr ''65a000000000000000000001'')]]"

definition lesson_chapters :: "jsval list" where
  "lesson_chapters = [JObj [(''id'', JStr ''c1''), (''ref_id'', JStr ''65a000000000000000000002'')]]"

definition lesson_context :: sync_context where
  "lesson_context =
     \<lparr> bookRefIds = \<lparr> own_refs = [(''b1'', JStr ''65a000000000000000000001'')],
                      proto_ref = None \<rparr>,
       chapterRefIds = \<lparr> own_refs = [(''c1'', JStr ''65a000000000000000000002'')],
                         proto_ref = None \<rparr>,
       lessonRefIds = emptyRefs \<rparr>"

definition lesson_a :: jsval where
  "lesson_a = JObj [(''id'', JStr ''la''), (''ref_id'', JStr ''65a00000000000000000000a''),
                    (''book_id'', JStr ''b1''), (''chapter_id'', JStr ''c1''),
                    (''name'', JStr ''Exercise 1.1''), (''display_order'', JNum 1)]"

definition lesson_b :: jsval where
  "lesson_b = JObj [(''id'', JStr ''lb''), (''ref_id'', JStr ''65a00000000000000000000b''),
                    (''book_id'', JStr ''b1''), (''chapter_id'', JStr ''c1''),
                    (''name'', JStr ''Exercise 1.1 (copy)''), (''display_order'', JNum 1)]"

definition shared_tuple :: "bson list" where
  "shared_tuple = [BJson (JNum 1), BDBRef ''chapter'' (BObjectId ''65a000000000000000000002''),
                   BJson (JStr ''EXAMPLE'')]"

definition indexedCollection :: collection where
  "indexedCollection = \<lparr> documents = [], uniqueIndex = Some conflictKeys \<rparr>"

definition staleCollection :: collection where
  "staleCollection =
     \<lparr> documents = [(''65a00000000000000000000b'',
                      [(''name'', BJson (JStr ''Exercise 7.3'')), (''order'', BJson (JNum 7)),
                       (''type'', BJson (JStr ''EXAMPLE'')), (''chapter'', BJson JNull)])],
       uniqueIndex = Some conflictKeys \<rparr>"

definition exercise_a :: mongo_doc where
  "exercise_a = \<lparr> doc_id = ''65a00000000000000000000a'',
      doc_fields =
        [(''name'', BJson (JStr ''Exercise 1.1'')), (''index'', BJson JNull),
         (''order'', BJson (JNum 1)), (''common_parent_section_name'', BJson JNull),
         (''parent_section_name'', BJson JNull), (''toc_output_json'', BJson JNull),
         (''toc_status'', BJson (JStr ''COMPLETED'')), (''type'', BJson (JStr ''EXAMPLE'')),
         (''book'', BDBRef ''book'' (BObjectId ''65a000000000000000000001'')),
         (''chapter'', BDBRef ''chapter'' (BObjectId ''65a000000000000000000002''))] \<rparr>"

definition exercise_b :: mongo_doc where
  "exercise_b = \<lparr> doc_id = ''65a00000000000000000000b'',
      doc_fields =
        [(''name'', BJson (JStr ''Exercise 1.1 (copy)'')), (''index'', BJson JNull),
         (''order'', BJson (JNum 1)), (''common_parent_section_name'', BJson JNull),
         (''parent_section_name'', BJson JNull), (''toc_output_json'', BJson JNull),
         (''toc_status'', BJson (JStr ''COMPLETED'')), (''type'', BJson (JStr ''EXAMPLE'')),
         (''book'', BDBRef ''book'' (BObjectId ''65a000000000000000000001'')),
         (''chapter'', BDBRef ''chapter'' (BObjectId ''65a000000000000000000002''))] \<rparr>"

lemma lesson_pair_classified:
  "map (classify lessonTransformItem lesson_context) [lesson_a, lesson_b] =
     [Sent exercise_a, Sent exercise_b]"
  by code_simp

lemma lesson_pair_run:
  "lessonSync (Inr lesson_context) (Inr [lesson_a, lesson_b]) env =
     Inr (lessonBatchUpsert [exercise_a, exercise_b] (createStats \<lparr> total_count := 2 \<rparr>, env))"
proof -
  from lesson_pair_classified
  have a: "classify lessonTransformItem lesson_context lesson_a = Sent exercise_a"
    and b: "classify lessonTransformItem lesson_context lesson_b = Sent exercise_b"
    by simp_all
  have ch: "chunks BATCH_SIZE [exercise_a, exercise_b] = [[exercise_a, exercise_b]]"
    by (simp add: chunks_short BATCH_SIZE_def)
  from syncRows_batches [OF additive_lessonBatchUpsert, of lessonTransformItem lesson_context
      "[lesson_a, lesson_b]" env]
  show ?thesis
    by (simp add: lessonSync_def sync_def a b ch numeral_2_eq_2 split: prod.splits)
qed

lemmas store_eval =
  lessonBatchUpsert_def bulkWrite_def noResult_def conflictFilter_def fieldOrNull_def
  matchesAll_def indexConflict_def upsertInto_def updateIn_def indexKey_def conflictKeys_def
  tupleOf_def createStats_def Let_def

text \<open>
  C1. A run of the syncer of lessons that returns, on a collection with at most one
  document for each tuple, leaves at most one document for each tuple, provided that the
  collection enforces the unique index on \<open>order\<close>, \<open>chapter\<close>, \<open>type\<close>, or that no batch holds
  two documents with the same tuple and different \<open>_id\<close>.
\<close>

theorem lessonSync_one_per_tuple:
  assumes run: "lessonSync (Inr context) (Inr rows) env = Inr (stats', env')"
    and k: "keyed (coll env)" and u: "onePerTuple (coll env)"
    and g: "uniqueIndex (coll env) = Some conflictKeys
            \<or> list_all separated
                 (chunks BATCH_SIZE (sentDocs (map (classify lessonTransformItem context) rows)))"
  shows "keyed (coll env') \<and> onePerTuple (coll env')"
proof -
  let ?docs = "sentDocs (map (classify lessonTransformItem context) rows)"
  let ?bs = "chunks BATCH_SIZE ?docs"
  from run have "syncRows lessonBatchUpsert lessonTransformItem context rows env = Inr (stats', env')"
    by (simp add: lessonSync_def sync_def)
  with syncRows_batches [OF additive_lessonBatchUpsert, of lessonTransformItem "context" rows env]
  obtain stats2 where fold:
    "foldl (\<lambda>s b. lessonBatchUpsert b s) (createStats \<lparr> total_count := length rows \<rparr>, env) ?bs =
       (stats2, env')"
    by (auto split: option.splits prod.splits)
  have shape: "map fst (doc_fields d) = lessonKeys" if "b \<in> set ?bs" and "d \<in> set b" for b d
  proof -
    from that set_chunks [of b BATCH_SIZE ?docs] have "d \<in> set ?docs" by auto
    from sentDocs_transformed [OF this]
    obtain item where "lessonTransformItem item context = Inr (Some d)" by auto
    then show ?thesis by (rule lessonTransformItem_keys)
  qed
  from batches_unique [OF shape k u g fold] show ?thesis .
qed

theorem lessonSync_one_per_tuple_witness:
  "lessonPreSyncHook lesson_books lesson_chapters = Inr lesson_context
   \<and> keyed indexedCollection \<and> onePerTuple indexedCollection
   \<and> uniqueIndex indexedCollection = Some conflictKeys
   \<and> map_sum id (\<lambda>(stats, docs). (stats, map (\<lambda>(i, e). (i, tupleOf e)) docs))
        (outcome (lessonSync (Inr lesson_context) (Inr [lesson_a, lesson_b])
           \<lparr> coll = indexedCollection, clock = tick, reads = 0 \<rparr>)) =
      Inr (\<lparr> total_count = 2, inserted = 0, updated = 0, skipped = 0, errors = 2,
             matched_count = None \<rparr>,
           [(''65a00000000000000000000a'', shared_tuple)])
   \<and> onePerTuple (coll (snd (projr (lessonSync (Inr lesson_context) (Inr [lesson_a, lesson_b])
           \<lparr> coll = indexedCollection, clock = tick, reads = 0 \<rparr>))))"
proof -
  let ?env = "\<lparr> coll = indexedCollection, clock = tick, reads = 0 \<rparr>"
  let ?run = "lessonSync (Inr lesson_context) (Inr [lesson_a, lesson_b]) ?env"
  have hook: "lessonPreSyncHook lesson_books lesson_chapters = Inr lesson_context"
    by code_simp
  have k: "keyed indexedCollection" and u: "onePerTuple indexedCollection"
    and i: "uniqueIndex indexedCollection = Some conflictKeys"
    by (simp_all add: keyed_def onePerTuple_def indexedCollection_def)
  obtain stats' env' where
    batch: "lessonBatchUpsert [exercise_a, exercise_b] (createStats \<lparr> total_count := 2 \<rparr>, ?env) =
              (stats', env')"
    by (cases "lessonBatchUpsert [exercise_a, exercise_b] (createStats \<lparr> total_count := 2 \<rparr>, ?env)")
  with lesson_pair_run [of ?env] have run: "?run = Inr (stats', env')" by simp
  have stats: "fst (lessonBatchUpsert [exercise_a, exercise_b]
                      (createStats \<lparr> total_count := 2 \<rparr>, ?env)) =
      \<lparr> total_count = 2, inserted = 0, updated = 0, skipped = 0, errors = 2, matched_count = None \<rparr>"
    by (simp add: store_eval indexedCollection_def exercise_a_def exercise_b_def)
  have stored: "map (\<lambda>(i, e). (i, tupleOf e))
                  (documents (coll (snd (lessonBatchUpsert [exercise_a, exercise_b]
                      (createStats \<lparr> total_count := 2 \<rparr>, ?env))))) =
      [(''65a00000000000000000000a'', shared_tuple)]"
    by (simp add: store_eval indexedCollection_def exercise_a_def exercise_b_def shared_tuple_def)
  from lessonSync_one_per_tuple [OF run] k u i
  have "onePerTuple (coll env')" by simp
  with run have after: "onePerTuple (coll (snd (projr ?run)))" by simp
  from stats stored batch run
  have out: "map_sum id (\<lambda>(stats, docs). (stats, map (\<lambda>(i, e). (i, tupleOf e)) docs)) (outcome ?run) =
      Inr (\<lparr> total_count = 2, inserted = 0, updated = 0, skipped = 0, errors = 2,
             matched_count = None \<rparr>,
           [(''65a00000000000000000000a'', shared_tuple)])"
    by (simp add: outcome_def)
  from hook k u i out after show ?thesis by simp
qed

text \<open>
  Without the index, the exercises of \<open>lesson_a\<close> and \<open>lesson_b\<close>, written by one batch
  into the empty collection, are both there after the run: the delete operations are all
  applied before the first upsert. With the index, and a collection that holds the exercise
  of \<open>lesson_b\<close> under another tuple, the second upsert is rejected, the batch is counted
  under \<open>errors\<close>, and the collection has a document for each of the two \<open>ref_id\<close>.
\<close>

theorem lessonSync_same_batch_counterexample:
  "keyed emptyCollection \<and> onePerTuple emptyCollection
   \<and> map_sum id (\<lambda>(stats, docs). (stats, map (\<lambda>(i, e). (i, tupleOf e)) docs))
        (outcome (lessonSync (lessonPreSyncHook lesson_books lesson_chapters)
           (Inr [lesson_a, lesson_b])
           \<lparr> coll = emptyCollection, clock = tick, reads = 0 \<rparr>)) =
      Inr (\<lparr> total_count = 2, inserted = 2, updated = 0, skipped = 0, errors = 0,
             matched_count = Some 0 \<rparr>,
           [(''65a00000000000000000000a'', shared_tuple),
            (''65a00000000000000000000b'', shared_tuple)])
   \<and> \<not> onePerTuple (coll (snd (projr (lessonSync (lessonPreSyncHook lesson_books lesson_chapters)
           (Inr [lesson_a, lesson_b])
           \<lparr> coll = emptyCollection, clock = tick, reads = 0 \<rparr>))))
   \<and> keyed staleCollection \<and> onePerTuple staleCollection
   \<and> map_sum id (\<lambda>(stats, docs). (stats, map (\<lambda>(i, e). (i, tupleOf e)) docs))
        (outcome (lessonSync (lessonPreSyncHook lesson_books lesson_chapters)
           (Inr [lesson_a, lesson_b])
           \<lparr> coll = staleCollection, clock = tick, reads = 0 \<rparr>)) =
      Inr (\<lparr> total_count = 2, inserted = 0, updated = 0, skipped = 0, errors = 2,
             matched_count = None \<rparr>,
           [(''65a00000000000000000000b'',
               [BJson (JNum 7), BJson JNull, BJson (JStr ''EXAMPLE'')]),
            (''65a00000000000000000000a'', shared_tuple)])"
proof -
  let ?plain = "\<lparr> coll = emptyCollection, clock = tick, reads = 0 \<rparr>"
  let ?stale = "\<lparr> coll = staleCollection, clock = tick, reads = 0 \<rparr>"
  have hook: "lessonPreSyncHook lesson_books lesson_chapters = Inr lesson_context"
    by code_simp
  have k: "keyed emptyCollection" "onePerTuple emptyCollection"
    "keyed staleCollection" "onePerTuple staleCollection"
    by (simp_all add: keyed_def onePerTuple_def emptyCollection_def staleCollection_def)
  have stats1: "fst (lessonBatchUpsert [exercise_a, exercise_b]
                      (createStats \<lparr> total_count := 2 \<rparr>, ?plain)) =
      \<lparr> total_count = 2, inserted = 2, updated = 0, skipped = 0, errors = 0,
        matched_count = Some 0 \<rparr>"
    by (simp add: store_eval emptyCollection_def exercise_a_def exercise_b_def)
  have stored1: "map (\<lambda>(i, e). (i, tupleOf e))
                  (documents (coll (snd (lessonBatchUpsert [exercise_a, exercise_b]
                      (createStats \<lparr> total_count := 2 \<rparr>, ?plain))))) =
      [(''65a00000000000000000000a'', shared_tuple), (''65a00000000000000000000b'', shared_tuple)]"
    by (simp add: store_eval emptyCollection_def exercise_a_def exercise_b_def shared_tuple_def)
  have stats2: "fst (lessonBatchUpsert [exercise_a, exercise_b]
                      (createStats \<lparr> total_count := 2 \<rparr>, ?stale)) =
      \<lparr> total_count = 2, inserted = 0, updated = 0, skipped = 0, errors = 2,
        matched_count = None \<rparr>"
    by (simp add: store_eval staleCollection_def exercise_a_def exercise_b_def)
  have stored2: "map (\<lambda>(i, e). (i, tupleOf e))
                  (documents (coll (snd (lessonBatchUpsert [exercise_a, exercise_b]
                      (createStats \<lparr> total_count := 2 \<rparr>, ?stale))))) =
      [(''65a00000000000000000000b'', [BJson (JNum 7), BJson JNull, BJson (JStr ''EXAMPLE'')]),
       (''65a00000000000000000000a'', shared_tuple)]"
    by (simp add: store_eval staleCollection_def exercise_a_def exercise_b_def shared_tuple_def)
  from stored1 have dup: "\<not> onePerTuple (coll (snd (lessonBatchUpsert [exercise_a, exercise_b]
                      (createStats \<lparr> total_count := 2 \<rparr>, ?plain))))"
  proof -
    let ?ds = "documents (coll (snd (lessonBatchUpsert [exercise_a, exercise_b]
                      (createStats \<lparr> total_count := 2 \<rparr>, ?plain))))"
    have "map (\<lambda>(i, e). tupleOf e) ?ds = map snd (map (\<lambda>(i, e). (i, tupleOf e)) ?ds)"
      unfolding map_map by (rule map_cong) auto
    also have "\<dots> = [shared_tuple, shared_tuple]"
      unfolding stored1 by simp
    finally show ?thesis by (simp add: onePerTuple_def)
  qed
  show ?thesis
    using k stats1 stored1 stats2 stored2 dup
    by (simp add: hook lesson_pair_run outcome_def split_def)
qed

subsection \<open>Reverse sync engine: a second run\<close>






text \<open>
  \<open>countsOnly\<close> and \<open>collOnly\<close>: the statistics differ only in \<open>inserted\<close> and \<open>updated\<close>, the
  environments only in the collection.
\<close>

definition countsOnly :: "sync_stats \<Rightarrow> sync_stats \<Rightarrow> bool" where
  "countsOnly s s' = (s' = s \<lparr> inserted := inserted s', updated := updated s' \<rparr>)"

definition collOnly :: "mongo_env \<Rightarrow> mongo_env \<Rightarrow> bool" where
  "collOnly e e' = (e' = e \<lparr> coll := coll e' \<rparr>)"

lemma countsOnly_refl [simp]: "countsOnly s s"
  by (simp add: countsOnly_def)

lemma collOnly_refl [simp]: "collOnly e e"
  by (simp add: collOnly_def)
















end
